theory Spec2Isabelle
  imports Complex_Main "HOL-Library.Multiset" "HOL-Library.List_Lexorder" "HOL-Library.Char_ord"
    "HOL-Library.Log_Nat"
begin

section \<open>Text primitives of the analyzer\<close>

text \<open>
  The analyzer of \<^verbatim>\<open>chat_logs_analytics.py\<close> works on Python strings with
  \<^verbatim>\<open>str.count\<close>, \<^verbatim>\<open>str.lower\<close>, the \<^verbatim>\<open>in\<close> test, slicing and
  \<^verbatim>\<open>str.startswith\<close>. Text is modelled as \<^typ>\<open>string\<close> (ASCII characters);
  \<^verbatim>\<open>lower\<close> and \<^verbatim>\<open>title\<close> act on the letters A..Z and a..z only.
\<close>

text \<open>
  \<^verbatim>\<open>text.count(sub)\<close>: the number of non-overlapping occurrences of \<^verbatim>\<open>sub\<close>,
  scanning from the left; after a match the scan resumes behind it. For the empty
  \<^verbatim>\<open>sub\<close> Python answers \<^verbatim>\<open>len(text) + 1\<close>.
\<close>

function count_from :: "string \<Rightarrow> string \<Rightarrow> nat" where
  "count_from sub [] = 0"
| "count_from sub (c # cs) =
     (if take (length sub) (c # cs) = sub
      then Suc (count_from sub (drop (length sub - 1) cs))
      else count_from sub cs)"
  by pat_completeness auto
termination
  by (relation "measure (\<lambda>(sub, t). length t)") auto

definition str_count :: "string \<Rightarrow> string \<Rightarrow> nat" where
  "str_count text sub = (if sub = [] then length text + 1 else count_from sub text)"

text \<open>\<^verbatim>\<open>sub in text\<close>\<close>

fun contains :: "string \<Rightarrow> string \<Rightarrow> bool" where
  "contains [] sub = (sub = [])"
| "contains (c # cs) sub = (take (length sub) (c # cs) = sub \<or> contains cs sub)"

definition is_upper :: "char \<Rightarrow> bool" where
  "is_upper c = (65 \<le> (of_char c :: nat) \<and> (of_char c :: nat) \<le> 90)"

definition is_lower :: "char \<Rightarrow> bool" where
  "is_lower c = (97 \<le> (of_char c :: nat) \<and> (of_char c :: nat) \<le> 122)"

definition lower_char :: "char \<Rightarrow> char" where
  "lower_char c = (if is_upper c then char_of ((of_char c :: nat) + 32) else c)"

definition upper_char :: "char \<Rightarrow> char" where
  "upper_char c = (if is_lower c then char_of ((of_char c :: nat) - 32) else c)"

definition lower :: "string \<Rightarrow> string" where
  "lower s = map lower_char s"

text \<open>
  \<^verbatim>\<open>s.title()\<close>: a letter that follows a letter is lower-cased, any other letter is
  upper-cased; the flag is whether the previous character was a letter.
\<close>

fun title_from :: "bool \<Rightarrow> string \<Rightarrow> string" where
  "title_from prev [] = []"
| "title_from prev (c # cs) =
     (if is_upper c \<or> is_lower c
      then (if prev then lower_char c else upper_char c) # title_from True cs
      else c # title_from False cs)"

definition title :: "string \<Rightarrow> string" where
  "title s = title_from False s"

text \<open>\<^verbatim>\<open>s[:n] + "..." if len(s) > n else s\<close> with \<^verbatim>\<open>n = 100\<close>\<close>

definition truncate100 :: "string \<Rightarrow> string" where
  "truncate100 s = (if length s > 100 then take 100 s @ ''...'' else s)"

section \<open>The indicator tables of \<open>ChatLogsAnalyzer.__init__\<close>\<close>

definition success_indicators :: "string list" where
  "success_indicators =
    [''works'', ''perfect'', ''done'', ''completed'', ''success'', ''fixed'',
     ''great'', ''exactly'', ''solved'', ''working now'', ''that's it'',
     ''perfect!'', ''excellent'', ''thank you'', ''brilliant'']"

definition stuck_indicators :: "string list" where
  "stuck_indicators =
    [''still not working'', ''same error'', ''tried everything'',
     ''doesn't work'', ''keep getting'', ''still failing'', ''won't work'',
     ''same issue'', ''no luck'', ''still broken'']"

definition problem_indicators :: "string list" where
  "problem_indicators =
    [''error'', ''bug'', ''issue'', ''problem'', ''fail'', ''broken'',
     ''not working'', ''doesn't work'', ''exception'', ''crash'']"

text \<open>
  \<^verbatim>\<open>_count_indicators\<close>: the loop \<^verbatim>\<open>count += text.count(indicator)\<close> over the
  indicators, starting from 0.
\<close>

definition count_indicators :: "string \<Rightarrow> string list \<Rightarrow> int" where
  "count_indicators text indicators =
     foldl (\<lambda>count indicator. count + int (str_count text indicator)) 0 indicators"

section \<open>Errors, time and the library environment\<close>

text \<open>
  The exceptions the modelled functions can raise: \<^verbatim>\<open>KeyError\<close> (a key missing from a
  log dictionary), \<^verbatim>\<open>ValueError\<close> (\<^verbatim>\<open>datetime.fromisoformat\<close> on text it cannot
  parse) and \<^verbatim>\<open>OverflowError\<close> (\<^verbatim>\<open>timedelta\<close> and \<^verbatim>\<open>datetime\<close> arithmetic out of
  range). A function that can raise returns \<open>py_error + 'a\<close>.
\<close>

datatype py_error = KeyError string | ValueError | OverflowError

definition err_bind :: "'e + 'a \<Rightarrow> ('a \<Rightarrow> 'e + 'b) \<Rightarrow> 'e + 'b" where
  "err_bind m f = (case m of Inl e \<Rightarrow> Inl e | Inr x \<Rightarrow> f x)"

text \<open>
  A \<^verbatim>\<open>datetime\<close> is a timezone-aware instant, as the data model requires: the number of
  microseconds since 0001-01-01T00:00:00 UTC (\<^verbatim>\<open>datetime.min\<close> in UTC is 0). A
  difference of two instants, a \<^verbatim>\<open>timedelta\<close>, is a number of microseconds.
\<close>

type_synonym datetime = int

text \<open>
  Python floats are binary64 numbers, and the true division of two integers is the
  quotient rounded to the nearest float, ties to the even mantissa. A float is modelled
  by the rational it stands for: \<open>double_of_ratio n d\<close> is the float \<^verbatim>\<open>n / d\<close> for a
  positive \<open>d\<close>, found from the exponent \<open>\<lfloor>log\<^sub>2 (|n| / d)\<rfloor> - 52\<close> that gives a mantissa
  of 53 bits. Infinities and subnormal numbers are out of reach of a \<^verbatim>\<open>timedelta\<close>,
  whose magnitude is between \<open>10\<^sup>-\<^sup>6\<close> and \<open>10\<^sup>1\<^sup>4\<close> seconds.
\<close>

definition round_half_even :: "int \<Rightarrow> int \<Rightarrow> int" where
  "round_half_even n d =
     (let q = n div d; r = n mod d
      in if 2 * r < d then q else if d < 2 * r then q + 1 else if even q then q else q + 1)"

definition floor_log2 :: "int \<Rightarrow> int \<Rightarrow> int" where
  "floor_log2 n d =
     (let k = bitlen n - bitlen d
      in if (if 0 \<le> k then d * 2 ^ nat k \<le> n else d \<le> n * 2 ^ nat (- k)) then k else k - 1)"

definition double_of_ratio :: "int \<Rightarrow> int \<Rightarrow> rat" where
  "double_of_ratio n d =
     (if n = 0 then 0
      else let e = floor_log2 \<bar>n\<bar> d - 52
        in if e \<le> 0
           then of_int (sgn n * round_half_even (\<bar>n\<bar> * 2 ^ nat (- e)) d) / 2 ^ nat (- e)
           else of_int (sgn n * round_half_even \<bar>n\<bar> (d * 2 ^ nat e) * 2 ^ nat e))"

text \<open>The float nearest to a rational.\<close>

definition to_double :: "rat \<Rightarrow> rat" where
  "to_double q = (case quotient_of q of (n, d) \<Rightarrow> double_of_ratio n d)"

text \<open>
  \<^verbatim>\<open>delta.total_seconds()\<close>: the microseconds of the \<^verbatim>\<open>timedelta\<close> divided by
  \<open>10\<^sup>6\<close>, as a float.
\<close>

definition total_seconds :: "int \<Rightarrow> rat" where
  "total_seconds delta = double_of_ratio delta 1000000"

text \<open>\<^verbatim>\<open>int(x)\<close> of a float truncates towards zero.\<close>

definition int_of_float :: "rat \<Rightarrow> int" where
  "int_of_float x = (if 0 \<le> x then \<lfloor>x\<rfloor> else - \<lfloor>- x\<rfloor>)"

definition datetime_min :: datetime where
  "datetime_min = 0"

definition datetime_max :: datetime where
  "datetime_max = 315537897599999999"

definition timedelta_min :: int where
  "timedelta_min = - 86399999913600000000"

definition timedelta_max :: int where
  "timedelta_max = 86399999999999999999"

definition us_per_minute :: int where
  "us_per_minute = 60000000"

definition us_per_hour :: int where
  "us_per_hour = 3600000000"

text \<open>
  What the analyzer takes from the Python runtime and standard library, as parameters of
  the model: \<^verbatim>\<open>datetime.fromisoformat\<close> (\<open>None\<close> is its \<^verbatim>\<open>ValueError\<close>),
  \<^verbatim>\<open>strftime('%Y%m%d_%H%M%S')\<close>, \<^verbatim>\<open>isoformat()\<close>, \<^verbatim>\<open>re.findall(pattern, text)\<close>
  (the flag says whether \<^verbatim>\<open>re.IGNORECASE\<close> is passed; every pattern of the analyzer has
  one group, so the result is a list of strings), and the order in which a set of strings
  is iterated (\<^verbatim>\<open>list(s)\<close>, \<^verbatim>\<open>for x in s\<close>).
\<close>

record pylib =
  fromisoformat :: "string \<Rightarrow> datetime option"
  strftime_compact :: "datetime \<Rightarrow> string"
  isoformat :: "datetime \<Rightarrow> string"
  findall :: "string \<Rightarrow> string \<Rightarrow> bool \<Rightarrow> string list"
  set_order :: "string set \<Rightarrow> string list"

text \<open>Iterating a finite set visits each of its elements once.\<close>

definition set_order_ok :: "pylib \<Rightarrow> bool" where
  "set_order_ok lib =
     (\<forall>S. finite S \<longrightarrow> set (set_order lib S) = S \<and> distinct (set_order lib S))"

text \<open>
  The successive readings of \<^verbatim>\<open>datetime.now(timezone.utc)\<close> during one call:
  \<open>clock 0\<close> is the first reading, \<open>clock 1\<close> the second, and so on.
\<close>

type_synonym clock = "nat \<Rightarrow> datetime"

text \<open>\<^verbatim>\<open>datetime.now(timezone.utc) - timedelta(hours=lookback_hours)\<close>\<close>

definition cutoff_time :: "datetime \<Rightarrow> int \<Rightarrow> py_error + datetime" where
  "cutoff_time now lookback_hours =
     (let delta = lookback_hours * us_per_hour in
      if delta < timedelta_min \<or> timedelta_max < delta then Inl OverflowError
      else if now - delta < datetime_min \<or> datetime_max < now - delta then Inl OverflowError
      else Inr (now - delta))"

section \<open>The data classes\<close>

record ChatInteraction =
  id_str :: string
  user_query :: string
  claude_response :: string
  user_id :: string
  project_id :: string
  interaction_timestamp :: datetime
  created_at :: datetime
  updated_at :: datetime

text \<open>
  The fields of \<^verbatim>\<open>ConversationSession\<close> and \<^verbatim>\<open>DeveloperActivity\<close> that share a name
  with a field of \<^verbatim>\<open>ChatInteraction\<close>, with each other or with an indicator table carry
  the suffix \<open>_s\<close> (session) or \<open>_a\<close> (activity).
\<close>

record ConversationSession =
  session_id :: string
  user_id_s :: string
  project_id_s :: string
  interactions :: "ChatInteraction list"
  start_time :: datetime
  end_time :: datetime
  duration_minutes :: int
  files_mentioned :: "string list"
  features_discussed :: "string list"
  problems_encountered :: "string list"
  solutions_found :: "string list"
  success_indicators_s :: int
  stuck_indicators_s :: int

record DeveloperActivity =
  user_id_a :: string
  project_id_a :: string
  current_task :: string
  status :: string
  last_activity :: datetime
  duration_minutes_a :: int
  files_working_on :: "string list"
  recent_problems :: "string list"
  iteration_count :: int
  success_rate :: real

text \<open>
  The dictionary \<^verbatim>\<open>_check_collision\<close> returns. The confidences \<open>0.9\<close> and \<open>0.7\<close> are
  the rationals, and the \<^verbatim>\<open>success_rate\<close> of an activity is the exact quotient that the
  float division approximates.
\<close>

record Collision =
  collision_type :: string
  users :: "string list"
  resource :: string
  confidence :: real
  detected_at :: string
  suggestion :: string

section \<open>\<open>parse_chat_logs\<close>\<close>

text \<open>
  A log entry is a dictionary from field names to strings. \<^verbatim>\<open>log[k]\<close> raises
  \<^verbatim>\<open>KeyError\<close> on a missing key; the keyword arguments of \<^verbatim>\<open>ChatInteraction(...)\<close> are
  evaluated in the order written, and the first exception leaves the loop and the
  function: there is no \<^verbatim>\<open>try\<close> in \<^verbatim>\<open>parse_chat_logs\<close>.
\<close>

type_synonym chat_log = "string \<Rightarrow> string option"

definition getitem :: "chat_log \<Rightarrow> string \<Rightarrow> py_error + string" where
  "getitem entry k = (case entry k of None \<Rightarrow> Inl (KeyError k) | Some v \<Rightarrow> Inr v)"

text \<open>\<^verbatim>\<open>s.replace('Z', '+00:00')\<close>\<close>

definition replace_Z :: "string \<Rightarrow> string" where
  "replace_Z s = concat (map (\<lambda>c. if c = CHR ''Z'' then ''+00:00'' else [c]) s)"

definition parse_timestamp :: "pylib \<Rightarrow> string \<Rightarrow> py_error + datetime" where
  "parse_timestamp lib s =
     (case fromisoformat lib (replace_Z s) of None \<Rightarrow> Inl ValueError | Some t \<Rightarrow> Inr t)"

definition parse_log :: "pylib \<Rightarrow> chat_log \<Rightarrow> py_error + ChatInteraction" where
  "parse_log lib entry =
     err_bind (getitem entry ''id'') (\<lambda>i.
     err_bind (getitem entry ''user_query'') (\<lambda>q.
     err_bind (getitem entry ''claude_response'') (\<lambda>r.
     err_bind (getitem entry ''user_id'') (\<lambda>u.
     err_bind (getitem entry ''project_id'') (\<lambda>p.
     err_bind (err_bind (getitem entry ''interaction_timestamp'') (parse_timestamp lib)) (\<lambda>t.
     err_bind (err_bind (getitem entry ''created_at'') (parse_timestamp lib)) (\<lambda>c.
     err_bind (err_bind (getitem entry ''updated_at'') (parse_timestamp lib)) (\<lambda>d.
       Inr \<lparr>id_str = i, user_query = q, claude_response = r, user_id = u, project_id = p,
            interaction_timestamp = t, created_at = c, updated_at = d\<rparr>))))))))"

fun parse_chat_logs :: "pylib \<Rightarrow> chat_log list \<Rightarrow> py_error + ChatInteraction list" where
  "parse_chat_logs lib [] = Inr []"
| "parse_chat_logs lib (entry # logs) =
     (case parse_log lib entry of
        Inl e \<Rightarrow> Inl e
      | Inr interaction \<Rightarrow>
          (case parse_chat_logs lib logs of
             Inl e \<Rightarrow> Inl e
           | Inr rest \<Rightarrow> Inr (interaction # rest)))"

section \<open>The session summarizer: \<open>_create_session\<close> and its extractors\<close>

text \<open>The backslash of the raw pattern strings.\<close>

definition bsl :: string where
  "bsl = [CHR 0x5C]"

definition file_patterns :: "string list" where
  "file_patterns =
    [''('' @ bsl @ ''w+'' @ bsl @ ''.'' @ bsl @ ''w+)'',
     ''(/['' @ bsl @ ''w/'' @ bsl @ ''-'' @ bsl @ ''.]+'' @ bsl @ ''.'' @ bsl @ ''w+)'',
     ''('' @ bsl @ ''w+/'' @ bsl @ ''w+)'',
     ''`([^`]+'' @ bsl @ ''.'' @ bsl @ ''w+)`'']"

definition feature_patterns :: "string list" where
  "feature_patterns =
    [bsl @ ''b(auth|authentication|login|signup|logout)'' @ bsl @ ''b'',
     bsl @ ''b(payment|stripe|billing|checkout)'' @ bsl @ ''b'',
     bsl @ ''b(user|profile|account|registration)'' @ bsl @ ''b'',
     bsl @ ''b(api|endpoint|route|controller)'' @ bsl @ ''b'',
     bsl @ ''b(database|db|sql|query|migration)'' @ bsl @ ''b'',
     bsl @ ''b(dashboard|admin|panel)'' @ bsl @ ''b'',
     bsl @ ''b(email|notification|alert)'' @ bsl @ ''b'',
     bsl @ ''b(search|filter|sort)'' @ bsl @ ''b'']"

text \<open>
  \<^verbatim>\<open>_extract_files\<close>: the matches of every pattern are collected in a set, the set is
  iterated to filter out false positives, and the first ten elements of the set of the
  kept names are returned.
\<close>

definition is_file_name :: "string \<Rightarrow> bool" where
  "is_file_name file =
     (CHR ''.'' \<in> set file \<and> length file > 2 \<and> take 1 file \<noteq> ''.'' \<and>
      lower file \<notin> set [''www.'', ''http.'', ''https.''])"

definition extract_files :: "pylib \<Rightarrow> string \<Rightarrow> string list" where
  "extract_files lib text0 =
     (let files = foldl (\<lambda>files pattern. files \<union> set (findall lib pattern text0 True))
                    {} file_patterns;
          filtered_files = filter is_file_name (set_order lib files)
      in take 10 (set_order lib (set filtered_files)))"

definition extract_features :: "pylib \<Rightarrow> string \<Rightarrow> string list" where
  "extract_features lib text0 =
     (let text_lower = lower text0;
          features = foldl (\<lambda>features pattern.
                       features \<union> set (findall lib pattern text_lower False))
                       {} feature_patterns
      in set_order lib features)"

definition extract_problems :: "string list \<Rightarrow> string list" where
  "extract_problems user_queries =
     map truncate100
       (filter (\<lambda>query. list_ex (contains (lower query)) problem_indicators) user_queries)"

definition extract_solutions :: "string list \<Rightarrow> string list" where
  "extract_solutions claude_responses =
     map truncate100
       (filter (\<lambda>response. list_ex (contains (lower response)) success_indicators)
          claude_responses)"

text \<open>\<^verbatim>\<open>' '.join(parts)\<close>\<close>

fun join_space :: "string list \<Rightarrow> string" where
  "join_space [] = []"
| "join_space [s] = s"
| "join_space (s # t # ts) = s @ '' '' @ join_space (t # ts)"

text \<open>\<^verbatim>\<open>str(n)\<close> of a non-negative integer\<close>

function str_nat :: "nat \<Rightarrow> string" where
  "str_nat n =
     (if n < 10 then [char_of (48 + n)] else str_nat (n div 10) @ [char_of (48 + n mod 10)])"
  by pat_completeness auto
termination
  by (relation "measure (\<lambda>n. n)") auto

text \<open>\<^verbatim>\<open>int((end_time - start_time).total_seconds() / 60)\<close>, a float division.\<close>

definition minutes_between :: "datetime \<Rightarrow> datetime \<Rightarrow> int" where
  "minutes_between start end0 =
     int_of_float (to_double (total_seconds (end0 - start) / 60))"

text \<open>
  \<^verbatim>\<open>_create_session\<close> reads \<^verbatim>\<open>interactions[0]\<close> and \<^verbatim>\<open>interactions[-1]\<close>; both of its
  call sites are guarded by \<^verbatim>\<open>if current_session\<close>, so the list is never empty there.
\<close>

definition create_session ::
    "pylib \<Rightarrow> ChatInteraction list \<Rightarrow> string \<Rightarrow> string \<Rightarrow> nat \<Rightarrow> ConversationSession" where
  "create_session lib xs uid pid session_num =
     (let start = interaction_timestamp (hd xs);
          end0 = interaction_timestamp (last xs);
          duration = minutes_between start end0;
          all_text = join_space (map (\<lambda>i. user_query i @ '' '' @ claude_response i) xs);
          success_count = count_indicators (lower all_text) success_indicators;
          stuck_count = count_indicators (lower all_text) stuck_indicators
      in \<lparr>session_id = uid @ ''_'' @ pid @ ''_'' @ strftime_compact lib start @ ''_'' @
                         str_nat session_num,
          user_id_s = uid,
          project_id_s = pid,
          interactions = xs,
          start_time = start,
          end_time = end0,
          duration_minutes = max duration 1,
          files_mentioned = extract_files lib all_text,
          features_discussed = extract_features lib all_text,
          problems_encountered = extract_problems (map user_query xs),
          solutions_found = extract_solutions (map claude_response xs),
          success_indicators_s = success_count,
          stuck_indicators_s = stuck_count\<rparr>)"

section \<open>The session segmenter: \<open>group_into_sessions\<close>\<close>

text \<open>
  \<^verbatim>\<open>d[key].append(x)\<close> on a \<^verbatim>\<open>defaultdict(list)\<close>: dictionaries keep their keys in
  insertion order, so the dictionary is an association list with a new key at the end.
\<close>

fun dict_append :: "'k \<Rightarrow> 'v \<Rightarrow> ('k \<times> 'v list) list \<Rightarrow> ('k \<times> 'v list) list" where
  "dict_append k v [] = [(k, [v])]"
| "dict_append k v ((k', vs) # d) =
     (if k = k' then (k', vs @ [v]) # d else (k', vs) # dict_append k v d)"

text \<open>\<^verbatim>\<open>d[key]\<close> on a \<^verbatim>\<open>defaultdict(list)\<close>\<close>

definition dict_get :: "('k \<times> 'v list) list \<Rightarrow> 'k \<Rightarrow> 'v list" where
  "dict_get d k = (case map_of d k of None \<Rightarrow> [] | Some vs \<Rightarrow> vs)"

definition group_by_user_project ::
    "ChatInteraction list \<Rightarrow> ((string \<times> string) \<times> ChatInteraction list) list" where
  "group_by_user_project xs =
     foldl (\<lambda>d interaction. dict_append (user_id interaction, project_id interaction) interaction d)
       [] xs"

text \<open>
  The inner loop over the sorted interactions of one (user, project) pair. Its state is
  \<^verbatim>\<open>current_session\<close>, \<^verbatim>\<open>session_counter\<close> and the list \<^verbatim>\<open>sessions\<close>, which is shared by
  all pairs; after the loop the open session is appended. The test is the source's
  \<^verbatim>\<open>delta.total_seconds() > session_gap_minutes * 60\<close>: a float against an integer, which
  Python compares by their exact values.
\<close>

fun session_loop ::
    "pylib \<Rightarrow> int \<Rightarrow> string \<Rightarrow> string \<Rightarrow> ChatInteraction list \<Rightarrow> ChatInteraction list \<Rightarrow> nat \<Rightarrow>
     ConversationSession list \<Rightarrow> ConversationSession list" where
  "session_loop lib gap uid pid [] current_session session_counter sessions =
     (if current_session \<noteq> []
      then sessions @ [create_session lib current_session uid pid session_counter]
      else sessions)"
| "session_loop lib gap uid pid (x # xs) current_session session_counter sessions =
     (if current_session \<noteq> [] \<and>
         total_seconds (interaction_timestamp x - interaction_timestamp (last current_session))
           > of_int (gap * 60)
      then session_loop lib gap uid pid xs [x] (session_counter + 1)
             (sessions @ [create_session lib current_session uid pid session_counter])
      else session_loop lib gap uid pid xs (current_session @ [x]) session_counter sessions)"

text \<open>\<^verbatim>\<open>list.sort(key=...)\<close> is a stable sort, as \<^const>\<open>sort_key\<close> is.\<close>

definition group_into_sessions ::
    "pylib \<Rightarrow> ChatInteraction list \<Rightarrow> int \<Rightarrow> ConversationSession list" where
  "group_into_sessions lib xs session_gap_minutes =
     foldl (\<lambda>sessions ((uid, pid), user_interactions).
              session_loop lib session_gap_minutes uid pid
                (sort_key interaction_timestamp user_interactions) [] 1 sessions)
       [] (group_by_user_project xs)"

section \<open>The status engine: \<open>calculate_developer_status\<close>\<close>

definition total_interactions :: "ConversationSession list \<Rightarrow> int" where
  "total_interactions sessions = (\<Sum>s\<leftarrow>sessions. int (length (interactions s)))"

definition total_success :: "ConversationSession list \<Rightarrow> int" where
  "total_success sessions = (\<Sum>s\<leftarrow>sessions. success_indicators_s s)"

definition total_stuck :: "ConversationSession list \<Rightarrow> int" where
  "total_stuck sessions = (\<Sum>s\<leftarrow>sessions. stuck_indicators_s s)"

definition total_duration :: "ConversationSession list \<Rightarrow> int" where
  "total_duration sessions = (\<Sum>s\<leftarrow>sessions. duration_minutes s)"

text \<open>\<^verbatim>\<open>_calculate_objective_status\<close>, with its branches in the order of the source.\<close>

definition calculate_objective_status :: "ConversationSession list \<Rightarrow> string" where
  "calculate_objective_status sessions =
     (if sessions = [] then ''idle''
      else if total_success sessions > 0 \<and> total_interactions sessions \<le> 6 then ''flow''
      else if total_stuck sessions > 1 \<or>
              (total_interactions sessions > 10 \<and> total_success sessions = 0) then ''stuck''
      else if total_interactions sessions > 6 then ''slow''
      else ''flow'')"

definition infer_current_task :: "ConversationSession \<Rightarrow> string" where
  "infer_current_task session =
     (if files_mentioned session \<noteq> [] then ''Working on '' @ hd (files_mentioned session)
      else if features_discussed session \<noteq> []
        then title (hd (features_discussed session)) @ '' development''
      else if problems_encountered session \<noteq> []
        then ''Debugging: '' @ take 50 (last (problems_encountered session)) @ ''...''
      else ''General development'')"

text \<open>
  \<^verbatim>\<open>recent_sessions.sort(key=lambda x: x.end_time, reverse=True)\<close>: a stable sort in
  descending order, which is the reverse of the stable ascending sort of the reversed list.
\<close>

definition sort_by_recency :: "ConversationSession list \<Rightarrow> ConversationSession list" where
  "sort_by_recency sessions = rev (sort_key end_time (rev sessions))"

definition recent_sessions_of ::
    "ConversationSession list \<Rightarrow> string \<Rightarrow> string \<Rightarrow> datetime \<Rightarrow> ConversationSession list" where
  "recent_sessions_of sessions uid pid cutoff =
     filter (\<lambda>s. user_id_s s = uid \<and> project_id_s s = pid \<and> end_time s > cutoff) sessions"

text \<open>\<^verbatim>\<open>xs[-3:]\<close>\<close>

definition last3 :: "'a list \<Rightarrow> 'a list" where
  "last3 xs = drop (length xs - 3) xs"

definition idle_activity :: "string \<Rightarrow> string \<Rightarrow> DeveloperActivity" where
  "idle_activity uid pid =
     \<lparr>user_id_a = uid, project_id_a = pid, current_task = ''No recent activity'',
      status = ''idle'', last_activity = datetime_min, duration_minutes_a = 0,
      files_working_on = [], recent_problems = [], iteration_count = 0, success_rate = 0\<rparr>"

text \<open>
  \<^verbatim>\<open>calculate_developer_status\<close>; \<open>now\<close> is its one reading of the clock. The sets of
  files are unions of the sessions' lists, the problems are appended session by session.
\<close>

definition calculate_developer_status ::
    "pylib \<Rightarrow> datetime \<Rightarrow> ConversationSession list \<Rightarrow> string \<Rightarrow> string \<Rightarrow> int \<Rightarrow>
     py_error + DeveloperActivity" where
  "calculate_developer_status lib now sessions uid pid lookback_hours =
     err_bind (cutoff_time now lookback_hours) (\<lambda>cutoff.
       let recent_sessions = recent_sessions_of sessions uid pid cutoff in
       if recent_sessions = [] then Inr (idle_activity uid pid)
       else
         let recent_sessions = sort_by_recency recent_sessions;
             latest_session = hd recent_sessions;
             all_files = foldl (\<lambda>files s. files \<union> set (files_mentioned s)) {} recent_sessions;
             all_problems = foldl (\<lambda>problems s. problems @ problems_encountered s) []
                              recent_sessions
         in Inr \<lparr>user_id_a = uid, project_id_a = pid,
                 current_task = infer_current_task latest_session,
                 status = calculate_objective_status recent_sessions,
                 last_activity = end_time latest_session,
                 duration_minutes_a = total_duration recent_sessions,
                 files_working_on = take 5 (set_order lib all_files),
                 recent_problems = last3 all_problems,
                 iteration_count = total_interactions recent_sessions,
                 success_rate = real_of_int (total_success recent_sessions) /
                                real_of_int (max (total_interactions recent_sessions) 1)\<rparr>)"

section \<open>The collision engine: \<open>detect_team_collisions\<close>\<close>

definition files_of :: "ConversationSession list \<Rightarrow> string set" where
  "files_of sessions = foldl (\<lambda>files s. files \<union> set (files_mentioned s)) {} sessions"

definition features_of :: "ConversationSession list \<Rightarrow> string set" where
  "features_of sessions = foldl (\<lambda>features s. features \<union> set (features_discussed s)) {} sessions"

text \<open>
  \<^verbatim>\<open>_check_collision\<close>; \<open>now\<close> is the reading of the clock taken when the returned
  dictionary is built.
\<close>

definition check_collision ::
    "pylib \<Rightarrow> datetime \<Rightarrow> ConversationSession list \<Rightarrow> ConversationSession list \<Rightarrow>
     string \<Rightarrow> string \<Rightarrow> Collision option" where
  "check_collision lib now sessions1 sessions2 user1 user2 =
     (let file_overlap = files_of sessions1 \<inter> files_of sessions2;
          feature_overlap = features_of sessions1 \<inter> features_of sessions2
      in if file_overlap \<noteq> {} then
           Some \<lparr>collision_type = ''file_collision'', users = [user1, user2],
                 resource = hd (set_order lib file_overlap), confidence = 9 / 10,
                 detected_at = isoformat lib now,
                 suggestion = ''Coordinate work on '' @ hd (set_order lib file_overlap)\<rparr>
         else if feature_overlap \<noteq> {} then
           Some \<lparr>collision_type = ''feature_collision'', users = [user1, user2],
                 resource = hd (set_order lib feature_overlap), confidence = 7 / 10,
                 detected_at = isoformat lib now,
                 suggestion = ''Coordinate '' @ hd (set_order lib feature_overlap) @
                              '' development''\<rparr>
         else None)"

text \<open>
  The two nested loops of \<^verbatim>\<open>detect_team_collisions\<close>: \<open>user2\<close> ranges over the users
  after \<open>user1\<close>. The clock was read once for the cutoff and once for every collision
  found so far.
\<close>

fun collisions_with ::
    "pylib \<Rightarrow> clock \<Rightarrow> (string \<times> ConversationSession list) list \<Rightarrow> string \<Rightarrow> string list \<Rightarrow>
     Collision list \<Rightarrow> Collision list" where
  "collisions_with lib clk user_activities user1 [] collisions = collisions"
| "collisions_with lib clk user_activities user1 (user2 # rest) collisions =
     (case check_collision lib (clk (Suc (length collisions)))
             (dict_get user_activities user1) (dict_get user_activities user2) user1 user2 of
        None \<Rightarrow> collisions_with lib clk user_activities user1 rest collisions
      | Some collision \<Rightarrow>
          collisions_with lib clk user_activities user1 rest (collisions @ [collision]))"

fun collisions_among ::
    "pylib \<Rightarrow> clock \<Rightarrow> (string \<times> ConversationSession list) list \<Rightarrow> string list \<Rightarrow>
     Collision list \<Rightarrow> Collision list" where
  "collisions_among lib clk user_activities [] collisions = collisions"
| "collisions_among lib clk user_activities (user1 # rest) collisions =
     collisions_among lib clk user_activities rest
       (collisions_with lib clk user_activities user1 rest collisions)"

definition group_by_user ::
    "ConversationSession list \<Rightarrow> (string \<times> ConversationSession list) list" where
  "group_by_user sessions = foldl (\<lambda>d s. dict_append (user_id_s s) s d) [] sessions"

definition detect_team_collisions ::
    "pylib \<Rightarrow> clock \<Rightarrow> ConversationSession list \<Rightarrow> string \<Rightarrow> int \<Rightarrow> py_error + Collision list" where
  "detect_team_collisions lib clk sessions pid lookback_hours =
     err_bind (cutoff_time (clk 0) lookback_hours) (\<lambda>cutoff.
       let recent_sessions = filter (\<lambda>s. project_id_s s = pid \<and> end_time s > cutoff) sessions;
           user_activities = group_by_user recent_sessions;
           users0 = map fst user_activities
       in Inr (collisions_among lib clk user_activities users0 []))"

section \<open>One library environment, for evaluation\<close>

text \<open>
  Every theorem below holds for an arbitrary environment. To evaluate the model on
  concrete inputs one environment is fixed: timestamps of the shape
  \<^verbatim>\<open>YYYY-MM-DDTHH:MM:SS+00:00\<close> are parsed and printed in the proleptic Gregorian
  calendar, a set is iterated in sorted order, and the regular-expression engine is one
  that reports no match. The sample texts that are summarised below contain no file name
  and no feature keyword, so on them this is the answer of \<^verbatim>\<open>re.findall\<close>.
\<close>

definition is_leap :: "int \<Rightarrow> bool" where
  "is_leap y = (y mod 4 = 0 \<and> (y mod 100 \<noteq> 0 \<or> y mod 400 = 0))"

definition days_before_year :: "int \<Rightarrow> int" where
  "days_before_year y = (y - 1) * 365 + (y - 1) div 4 - (y - 1) div 100 + (y - 1) div 400"

definition days_in_month :: "int \<Rightarrow> int \<Rightarrow> int" where
  "days_in_month y m =
     (if m = 2 then (if is_leap y then 29 else 28)
      else if m = 4 \<or> m = 6 \<or> m = 9 \<or> m = 11 then 30 else 31)"

definition days_before_month :: "int \<Rightarrow> int \<Rightarrow> int" where
  "days_before_month y m = (\<Sum>k\<leftarrow>[1..m - 1]. days_in_month y k)"

definition digit_value :: "char \<Rightarrow> int option" where
  "digit_value c =
     (if 48 \<le> (of_char c :: nat) \<and> (of_char c :: nat) \<le> 57
      then Some (int (of_char c) - 48) else None)"

fun digits_value :: "int \<Rightarrow> string \<Rightarrow> int option" where
  "digits_value acc [] = Some acc"
| "digits_value acc (c # cs) =
     (case digit_value c of None \<Rightarrow> None | Some d \<Rightarrow> digits_value (10 * acc + d) cs)"

definition slice :: "nat \<Rightarrow> nat \<Rightarrow> string \<Rightarrow> string" where
  "slice i j s = take (j - i) (drop i s)"

definition fromisoformat_utc :: "string \<Rightarrow> datetime option" where
  "fromisoformat_utc s =
     (if length s = 25 \<and> slice 4 5 s = ''-'' \<and> slice 7 8 s = ''-'' \<and> slice 13 14 s = '':'' \<and>
         slice 16 17 s = '':'' \<and> slice 19 25 s = ''+00:00''
      then
        (case (digits_value 0 (slice 0 4 s), digits_value 0 (slice 5 7 s),
               digits_value 0 (slice 8 10 s), digits_value 0 (slice 11 13 s),
               digits_value 0 (slice 14 16 s), digits_value 0 (slice 17 19 s)) of
           (Some y, Some m, Some d, Some hh, Some mm, Some ss) \<Rightarrow>
             (if 1 \<le> y \<and> 1 \<le> m \<and> m \<le> 12 \<and> 1 \<le> d \<and> d \<le> days_in_month y m \<and>
                 hh < 24 \<and> mm < 60 \<and> ss < 60
              then Some (((((days_before_year y + days_before_month y m + d - 1) * 24 + hh) * 60
                           + mm) * 60 + ss) * 1000000)
              else None)
         | _ \<Rightarrow> None)
      else None)"

definition year_of_day :: "int \<Rightarrow> int" where
  "year_of_day n =
     hd (filter (\<lambda>y. days_before_year y \<le> n \<and> n < days_before_year (y + 1))
           [n div 366 + 1..n div 365 + 1])"

definition month_of_day :: "int \<Rightarrow> int \<Rightarrow> int" where
  "month_of_day y n =
     hd (filter (\<lambda>m. days_before_month y m \<le> n \<and> n < days_before_month y (m + 1)) [1..12])"

definition digit_char :: "int \<Rightarrow> char" where
  "digit_char d = char_of (48 + nat d)"

definition pad2 :: "int \<Rightarrow> string" where
  "pad2 n = [digit_char (n div 10 mod 10), digit_char (n mod 10)]"

definition pad4 :: "int \<Rightarrow> string" where
  "pad4 n = pad2 (n div 100) @ pad2 n"

definition pad6 :: "int \<Rightarrow> string" where
  "pad6 n = pad2 (n div 10000) @ pad4 n"

text \<open>The calendar fields of an instant: year, month, day, hour, minute, second, microsecond.\<close>

definition fields_of :: "datetime \<Rightarrow> int \<times> int \<times> int \<times> int \<times> int \<times> int \<times> int" where
  "fields_of t =
     (let days = t div 86400000000;
          y = year_of_day days;
          doy = days - days_before_year y;
          m = month_of_day y doy;
          d = doy - days_before_month y m + 1;
          secs = t div 1000000 mod 86400
      in (y, m, d, secs div 3600, secs div 60 mod 60, secs mod 60, t mod 1000000))"

definition strftime_utc :: "datetime \<Rightarrow> string" where
  "strftime_utc t =
     (case fields_of t of (y, m, d, hh, mm, ss, us) \<Rightarrow>
        pad4 y @ pad2 m @ pad2 d @ ''_'' @ pad2 hh @ pad2 mm @ pad2 ss)"

definition isoformat_utc :: "datetime \<Rightarrow> string" where
  "isoformat_utc t =
     (case fields_of t of (y, m, d, hh, mm, ss, us) \<Rightarrow>
        pad4 y @ ''-'' @ pad2 m @ ''-'' @ pad2 d @ ''T'' @ pad2 hh @ '':'' @ pad2 mm @ '':'' @
        pad2 ss @ (if us = 0 then [] else ''.'' @ pad6 us) @ ''+00:00'')"

definition utc_lib :: pylib where
  "utc_lib =
     \<lparr>fromisoformat = fromisoformat_utc, strftime_compact = strftime_utc,
      isoformat = isoformat_utc, findall = (\<lambda>pattern text0 ignorecase. []),
      set_order = sorted_list_of_set\<rparr>"

section \<open>Auxiliary functions for the proofs\<close>

text \<open>
  What the inner loop of \<^verbatim>\<open>group_into_sessions\<close> does to the lists of interactions
  alone: \<open>chunks far current xs\<close> walks \<open>xs\<close> with the open chunk \<open>current\<close> and closes it
  where the next record is \<open>far\<close> from the last one. \<open>float_gap\<close> is the test of the
  source, \<open>exact_gap\<close> the comparison of the exact difference with the threshold.
\<close>

definition float_gap :: "int \<Rightarrow> ChatInteraction \<Rightarrow> ChatInteraction \<Rightarrow> bool" where
  "float_gap gap a b =
     (total_seconds (interaction_timestamp b - interaction_timestamp a) > of_int (gap * 60))"

definition exact_gap :: "int \<Rightarrow> ChatInteraction \<Rightarrow> ChatInteraction \<Rightarrow> bool" where
  "exact_gap gap a b =
     (interaction_timestamp b - interaction_timestamp a > gap * us_per_minute)"

fun chunks ::
    "(ChatInteraction \<Rightarrow> ChatInteraction \<Rightarrow> bool) \<Rightarrow> ChatInteraction list \<Rightarrow>
     ChatInteraction list \<Rightarrow> ChatInteraction list list" where
  "chunks far current [] = (if current \<noteq> [] then [current] else [])"
| "chunks far current (x # xs) =
     (if current \<noteq> [] \<and> far (last current) x
      then current # chunks far [x] xs
      else chunks far (current @ [x]) xs)"

text \<open>The sessions numbered from \<open>n\<close> that \<^verbatim>\<open>_create_session\<close> makes of a list of chunks.\<close>

definition sessions_of ::
    "pylib \<Rightarrow> string \<Rightarrow> string \<Rightarrow> nat \<Rightarrow> ChatInteraction list list \<Rightarrow> ConversationSession list" where
  "sessions_of lib uid pid n cs =
     map (\<lambda>(k, c). create_session lib c uid pid k) (enumerate n cs)"

text \<open>
  A log entry is well formed when it has the eight fields of the schema and its three
  timestamps parse.
\<close>

definition well_formed :: "pylib \<Rightarrow> chat_log \<Rightarrow> bool" where
  "well_formed lib entry =
     (list_all (\<lambda>k. entry k \<noteq> None)
        [''id'', ''user_query'', ''claude_response'', ''user_id'', ''project_id''] \<and>
      list_all (\<lambda>k. case entry k of None \<Rightarrow> False
                     | Some v \<Rightarrow> fromisoformat lib (replace_Z v) \<noteq> None)
        [''interaction_timestamp'', ''created_at'', ''updated_at''])"

text \<open>A collision without the clock reading it was built at.\<close>

definition strip_time :: "Collision \<Rightarrow> Collision" where
  "strip_time c = c\<lparr>detected_at := []\<rparr>"

text \<open>The pairs the two nested loops of \<^verbatim>\<open>detect_team_collisions\<close> visit, in order.\<close>

fun pairs_of :: "'a list \<Rightarrow> ('a \<times> 'a) list" where
  "pairs_of [] = []"
| "pairs_of (x # xs) = map (Pair x) xs @ pairs_of xs"

text \<open>The sessions of a project that end after the cutoff, and those of one person.\<close>

definition in_window :: "ConversationSession list \<Rightarrow> string \<Rightarrow> datetime \<Rightarrow> ConversationSession list" where
  "in_window sessions pid cutoff =
     filter (\<lambda>s. project_id_s s = pid \<and> end_time s > cutoff) sessions"

definition sessions_by :: "ConversationSession list \<Rightarrow> string \<Rightarrow> ConversationSession list" where
  "sessions_by sessions uid = filter (\<lambda>s. user_id_s s = uid) sessions"

section \<open>Sample inputs\<close>

text \<open>
  Interactions of one developer in one project, starting at 2024-01-15T10:30:00Z, the
  timestamp of the first sample log of the source.
\<close>

definition sample_interaction :: "string \<Rightarrow> datetime \<Rightarrow> string \<Rightarrow> string \<Rightarrow> ChatInteraction" where
  "sample_interaction i t q r =
     \<lparr>id_str = i, user_query = q, claude_response = r, user_id = ''developer_1'',
      project_id = ''ecommerce_app'', interaction_timestamp = t, created_at = t,
      updated_at = t\<rparr>"

definition t0 :: datetime where
  "t0 = 63840911400000000"

text \<open>Scenario A: four records at minutes 0, 5, 10 and 50, each reporting a problem.\<close>

definition scenario_a :: "ChatInteraction list" where
  "scenario_a =
    [sample_interaction ''a1'' t0 ''error one'' ''ok'',
     sample_interaction ''a2'' (t0 + 5 * us_per_minute) ''bug two'' ''ok'',
     sample_interaction ''a3'' (t0 + 10 * us_per_minute) ''crash three'' ''ok'',
     sample_interaction ''a4'' (t0 + 50 * us_per_minute) ''problem four'' ''ok'']"

text \<open>
  Scenario B: four interactions of one session whose text contains ``fixed'' once and
  ``still not working'' twice.
\<close>

definition scenario_b :: "ChatInteraction list" where
  "scenario_b =
    [sample_interaction ''b1'' t0 ''still not working'' ''hm'',
     sample_interaction ''b2'' (t0 + 5 * us_per_minute) ''still not working'' ''hm'',
     sample_interaction ''b3'' (t0 + 10 * us_per_minute) ''so'' ''hm'',
     sample_interaction ''b4'' (t0 + 15 * us_per_minute) ''fixed'' ''ok'']"

text \<open>
  The first sample log of the source, the same log without its \<^verbatim>\<open>user_id\<close>, and the same
  log with a timestamp that is no ISO date.
\<close>

definition sample_fields :: "(string \<times> string) list" where
  "sample_fields =
    [(''id'', ''550e8400-e29b-41d4-a716-446655440000''),
     (''user_query'', ''I'm getting a JWT authentication error in auth.js''),
     (''claude_response'', ''Let me help you debug the JWT authentication issue...''),
     (''user_id'', ''developer_1''),
     (''project_id'', ''ecommerce_app''),
     (''interaction_timestamp'', ''2024-01-15T10:30:00Z''),
     (''created_at'', ''2024-01-15T10:30:00Z''),
     (''updated_at'', ''2024-01-15T10:30:00Z'')]"

definition sample_log :: chat_log where
  "sample_log = map_of sample_fields"

definition log_without_user :: chat_log where
  "log_without_user = map_of (filter (\<lambda>(k, v). k \<noteq> ''user_id'') sample_fields)"

definition log_with_bad_timestamp :: chat_log where
  "log_with_bad_timestamp = map_of ((''interaction_timestamp'', ''yesterday'') # sample_fields)"

text \<open>One interaction whose text has four success signals.\<close>

definition scenario_p :: "ChatInteraction list" where
  "scenario_p = [sample_interaction ''p1'' t0 ''perfect! that fixed it'' ''great'']"

text \<open>
  Scenario C: two developers whose sessions both reference \<^verbatim>\<open>auth.js\<close>, and a third one
  who shares only the feature \<^verbatim>\<open>auth\<close> with them. The clock advances one second per
  reading.
\<close>

definition sample_session ::
    "string \<Rightarrow> datetime \<Rightarrow> string list \<Rightarrow> string list \<Rightarrow> ConversationSession" where
  "sample_session uid t files features =
     \<lparr>session_id = uid @ ''_ecommerce_app_20240115_103000_1'', user_id_s = uid,
      project_id_s = ''ecommerce_app'',
      interactions = [(sample_interaction ''c1'' t ''q'' ''r'')\<lparr>user_id := uid\<rparr>],
      start_time = t, end_time = t, duration_minutes = 1, files_mentioned = files,
      features_discussed = features, problems_encountered = [], solutions_found = [],
      success_indicators_s = 0, stuck_indicators_s = 0\<rparr>"

definition scenario_c :: "ConversationSession list" where
  "scenario_c =
    [sample_session ''developer_1'' t0 [''auth.js'', ''app.py''] [''auth''],
     sample_session ''developer_2'' t0 [''auth.js''] [''auth'', ''login''],
     sample_session ''developer_3'' t0 [''db.sql''] [''auth'']]"

definition sample_clock :: clock where
  "sample_clock n = t0 + 60 * us_per_minute + int n * 1000000"

text \<open>The warnings of scenario C: one per pair of developers.\<close>

definition scenario_c_warnings :: "Collision list" where
  "scenario_c_warnings =
    [\<lparr>collision_type = ''file_collision'', users = [''developer_1'', ''developer_2''],
      resource = ''auth.js'', confidence = 9 / 10,
      detected_at = ''2024-01-15T11:30:01+00:00'',
      suggestion = ''Coordinate work on auth.js''\<rparr>,
     \<lparr>collision_type = ''feature_collision'', users = [''developer_1'', ''developer_3''],
      resource = ''auth'', confidence = 7 / 10,
      detected_at = ''2024-01-15T11:30:02+00:00'',
      suggestion = ''Coordinate auth development''\<rparr>,
     \<lparr>collision_type = ''feature_collision'', users = [''developer_2'', ''developer_3''],
      resource = ''auth'', confidence = 7 / 10,
      detected_at = ''2024-01-15T11:30:03+00:00'',
      suggestion = ''Coordinate auth development''\<rparr>]"

text \<open>
  For the dependence on the environment: a clock that is read five hours later, an
  environment that iterates sets in descending order, two developers who share two
  files, and two records with the same timestamp whose ids are not in input order.
\<close>

definition late_clock :: clock where
  "late_clock n = sample_clock n + 300 * us_per_minute"

definition descending_lib :: pylib where
  "descending_lib = utc_lib\<lparr>set_order := (\<lambda>S. rev (sorted_list_of_set S))\<rparr>"

definition scenario_d :: "ConversationSession list" where
  "scenario_d =
    [sample_session ''developer_1'' t0 [''auth.js'', ''app.py''] [],
     sample_session ''developer_2'' t0 [''app.py'', ''auth.js''] []]"

definition tied_records :: "ChatInteraction list" where
  "tied_records =
    [sample_interaction ''b'' t0 ''second'' ''ok'',
     sample_interaction ''a'' t0 ''first'' ''ok'']"

text \<open>
  Two records 63840911400000001 microseconds apart: the first datetime there is, and one
  microsecond after 2024-01-15T10:30:00Z.
\<close>

definition far_apart :: "ChatInteraction list" where
  "far_apart =
    [sample_interaction ''f1'' datetime_min ''first'' ''ok'',
     sample_interaction ''f2'' (t0 + 1) ''second'' ''ok'']"

section \<open>Rounding to a float\<close>

lemma round_half_even_ge_div: "0 < d \<Longrightarrow> n div d \<le> round_half_even n d"
  by (simp add: round_half_even_def Let_def)

lemma round_half_even_lower: "0 < d \<Longrightarrow> 2 * n - d \<le> 2 * d * round_half_even n d"
proof -
  assume d: "0 < d"
  have n: "n = d * (n div d) + n mod d" by simp
  have m: "0 \<le> n mod d" "n mod d < d" using d by simp_all
  show ?thesis
  proof (cases "2 * (n mod d) < d")
    case True
    then have "round_half_even n d = n div d"
      by (simp add: round_half_even_def Let_def)
    moreover have "2 * n - d \<le> 2 * d * (n div d)"
      using n True by (smt (verit) distrib_left mult.commute mult_2)
    ultimately show ?thesis by simp
  next
    case False
    have "2 * n - d \<le> 2 * d * (n div d) + d"
      using n m by (smt (verit) distrib_left mult.commute mult_2)
    also have "\<dots> \<le> 2 * d * (n div d + 1)"
      using d by (simp add: distrib_left)
    finally have up: "2 * n - d \<le> 2 * d * (n div d + 1)" .
    show ?thesis
    proof (cases "round_half_even n d = n div d")
      case True
      then have "2 * (n mod d) = d"
        using False by (auto simp: round_half_even_def Let_def split: if_splits)
      then have "2 * n - d = 2 * d * (n div d)"
        using n by (smt (verit) distrib_left mult.commute mult_2)
      with True show ?thesis by simp
    next
      case F: False
      then have "round_half_even n d = n div d + 1"
        by (auto simp: round_half_even_def Let_def split: if_splits)
      with up show ?thesis by simp
    qed
  qed
qed

lemma round_half_even_upper: "0 < d \<Longrightarrow> 2 * d * round_half_even n d \<le> 2 * n + d"
proof -
  assume d: "0 < d"
  have n: "n = d * (n div d) + n mod d" by simp
  have m: "0 \<le> n mod d" "n mod d < d" using d by simp_all
  have low: "2 * d * (n div d) \<le> 2 * n + d"
    using n m d by (smt (verit) distrib_left mult.commute mult_2)
  show ?thesis
  proof (cases "round_half_even n d = n div d")
    case True
    with low show ?thesis by simp
  next
    case False
    then have r: "round_half_even n d = n div d + 1" and h: "d \<le> 2 * (n mod d)"
      by (auto simp: round_half_even_def Let_def split: if_splits)
    have "2 * d * (n div d + 1) = 2 * d * (n div d) + 2 * d"
      by (simp add: distrib_left)
    also have "\<dots> \<le> 2 * n + d"
      using n h by (smt (verit) distrib_left mult.commute mult_2)
    finally show ?thesis using r by simp
  qed
qed

lemma rounded_gt_iff:
  assumes d: "0 < d" and p: "d < 2 * p"
  shows "round_half_even (n * p) d > G * p \<longleftrightarrow> n > G * d"
proof
  let ?m = "round_half_even (n * p) d"
  have p0: "0 < p" using d p by simp
  assume "G * p < ?m"
  then have "G * p + 1 \<le> ?m" by simp
  then have "2 * d * (G * p + 1) \<le> 2 * d * ?m"
    using d by (simp only: mult_le_cancel_left_pos mult_pos_pos zero_less_numeral)
  also have "\<dots> \<le> 2 * (n * p) + d"
    by (rule round_half_even_upper [OF d])
  finally have "2 * d * (G * p) + 2 * d \<le> 2 * (n * p) + d"
    by (simp add: distrib_left)
  then have "(G * d) * p < n * p"
    using d by (simp add: mult.assoc mult.left_commute mult.commute)
  then show "G * d < n"
    using p0 by (simp only: mult_less_cancel_right_pos)
next
  let ?m = "round_half_even (n * p) d"
  assume "G * d < n"
  then have "G * d + 1 \<le> n" by simp
  then have "(G * d + 1) * p \<le> n * p"
    using d p by (intro mult_right_mono) simp_all
  then have "G * d * p + p \<le> n * p"
    by (simp add: distrib_right)
  then have "2 * d * (G * p) < 2 * (n * p) - d"
    using p by (simp add: mult.assoc mult.left_commute mult.commute)
  also have "\<dots> \<le> 2 * d * ?m"
    by (rule round_half_even_lower [OF d])
  finally show "G * p < ?m"
    using d by (simp only: mult_less_cancel_left_pos mult_pos_pos zero_less_numeral)
qed

lemma le_div_int:
  fixes d q n :: int
  assumes "0 < d" and "d * q \<le> n"
  shows "q \<le> n div d"
proof -
  have "(d * q) div d \<le> n div d"
    using assms(2) assms(1) by (rule zdiv_mono1)
  then show ?thesis
    using assms(1) by simp
qed

lemma floor_log2_lower:
  assumes n: "0 < n" and d: "0 < d" and k: "0 \<le> floor_log2 n d"
  shows "d * 2 ^ nat (floor_log2 n d) \<le> n"
proof -
  define k0 where "k0 = bitlen n - bitlen d"
  show ?thesis
  proof (cases "if 0 \<le> k0 then d * 2 ^ nat k0 \<le> n else d \<le> n * 2 ^ nat (- k0)")
    case True
    then have eq: "floor_log2 n d = k0"
      unfolding floor_log2_def Let_def k0_def [symmetric] by simp
    have "0 \<le> k0" using k eq by simp
    with True have "d * 2 ^ nat k0 \<le> n" by simp
    then show ?thesis unfolding eq .
  next
    case False
    then have eq: "floor_log2 n d = k0 - 1"
      unfolding floor_log2_def Let_def k0_def [symmetric] by simp
    with k have k1: "1 \<le> k0" by simp
    have bd: "d < 2 ^ nat (bitlen d)" and bn: "2 ^ nat (bitlen n - 1) \<le> n"
      using bitlen_bounds [OF d] bitlen_bounds [OF n] by simp_all
    have "nat (bitlen d) + nat (k0 - 1) = nat (bitlen n - 1)"
      using k1 bitlen_nonneg [of d] by (simp add: k0_def nat_add_distrib [symmetric])
    then have "(2 :: int) ^ nat (bitlen d) * 2 ^ nat (k0 - 1) = 2 ^ nat (bitlen n - 1)"
      by (simp add: power_add [symmetric])
    moreover have "d * 2 ^ nat (k0 - 1) \<le> 2 ^ nat (bitlen d) * 2 ^ nat (k0 - 1)"
      using bd by (intro mult_right_mono) simp_all
    ultimately have "d * 2 ^ nat (k0 - 1) \<le> n"
      using bn by simp
    then show ?thesis unfolding eq .
  qed
qed

lemma total_seconds_nonneg: "0 \<le> n \<Longrightarrow> 0 \<le> total_seconds n"
proof -
  assume n: "0 \<le> n"
  have r: "0 \<le> round_half_even a b" if "0 \<le> a" "0 < b" for a b
  proof -
    have "0 \<le> a div b" using that by (simp add: pos_imp_zdiv_nonneg_iff)
    also have "\<dots> \<le> round_half_even a b" by (rule round_half_even_ge_div [OF that(2)])
    finally show ?thesis .
  qed
  show ?thesis
  proof (cases "n = 0")
    case True
    then show ?thesis by (simp add: total_seconds_def double_of_ratio_def)
  next
    case False
    with n have "0 < n" by simp
    then show ?thesis
      by (auto simp: total_seconds_def double_of_ratio_def Let_def intro!: r
          divide_nonneg_nonneg mult_nonneg_nonneg)
  qed
qed

lemma total_seconds_negative_limit:
  "0 \<le> n \<Longrightarrow> G < 0 \<Longrightarrow> total_seconds n > of_int G"
proof -
  assume "0 \<le> n" and "G < 0"
  then have "(of_int G :: rat) < 0" and "0 \<le> total_seconds n"
    by (simp_all add: total_seconds_nonneg)
  then show ?thesis by (rule less_le_trans)
qed

text \<open>
  Below \<open>2\<^sup>3\<^sup>4\<close> seconds a float resolves microseconds: the comparison of
  \<^verbatim>\<open>total_seconds()\<close> with a limit under \<open>2\<^sup>3\<^sup>4\<close> is the comparison of the exact values.
\<close>

lemma total_seconds_gt_exact:
  assumes n: "0 \<le> n" and G: "G < 2 ^ 34"
  shows "total_seconds n > of_int G \<longleftrightarrow> n > G * 1000000"
proof (cases "n = 0")
  case True
  then show ?thesis
    by (simp add: total_seconds_def double_of_ratio_def mult_less_0_iff)
next
  case False
  with n have pos: "0 < n" by simp
  define k where "k = floor_log2 n 1000000"
  define e where "e = k - 52"
  show ?thesis
  proof (cases "k \<le> 33")
    case True
    define s where "s = nat (- e)"
    have s19: "19 \<le> s" using True by (simp add: s_def e_def)
    have "(2 :: int) ^ 19 \<le> 2 ^ s"
      using s19 by (intro power_increasing) simp_all
    then have p: "(1000000 :: int) < 2 * 2 ^ s" by simp
    have e0: "e \<le> 0" using True by (simp add: e_def)
    have v: "total_seconds n = of_int (round_half_even (n * 2 ^ s) 1000000) / 2 ^ s"
      using pos e0
      by (simp add: total_seconds_def double_of_ratio_def Let_def k_def [symmetric]
          e_def [symmetric] s_def)
    have "total_seconds n > of_int G \<longleftrightarrow>
            (of_int (G * 2 ^ s) :: rat) < of_int (round_half_even (n * 2 ^ s) 1000000)"
      unfolding v by (simp add: pos_less_divide_eq)
    also have "\<dots> \<longleftrightarrow> G * 2 ^ s < round_half_even (n * 2 ^ s) 1000000"
      by (simp only: of_int_less_iff)
    also have "\<dots> \<longleftrightarrow> G * 1000000 < n"
      by (rule rounded_gt_iff [OF _ p]) simp
    finally show ?thesis .
  next
    case False
    then have k34: "34 \<le> k" by simp
    then have k0: "0 \<le> floor_log2 n 1000000" by (simp add: k_def)
    from floor_log2_lower [OF pos _ k0] have low: "1000000 * 2 ^ nat k \<le> n"
      by (simp add: k_def)
    have "(2 :: int) ^ 34 \<le> 2 ^ nat k"
      using k34 by (intro power_increasing) simp_all
    with G have Gk: "G < 2 ^ nat k" by simp
    then have "G * 1000000 < 2 ^ nat k * 1000000" by simp
    with low have rhs: "G * 1000000 < n" by (simp add: mult.commute)
    have lhs: "total_seconds n > of_int G"
    proof (cases "e \<le> 0")
      case True
      define s where "s = nat (- e)"
      have ks: "nat k + s = 52" using True k34 by (simp add: s_def e_def)
      let ?m = "round_half_even (n * 2 ^ s) 1000000"
      have v: "total_seconds n = of_int ?m / 2 ^ s"
        using pos True
        by (simp add: total_seconds_def double_of_ratio_def Let_def k_def [symmetric]
            e_def [symmetric] s_def)
      have "1000000 * 2 ^ nat k * 2 ^ s \<le> n * 2 ^ s"
        using low by (intro mult_right_mono) simp_all
      then have "1000000 * 2 ^ 52 \<le> n * 2 ^ s"
        by (simp add: mult.assoc power_add [symmetric] ks)
      then have "2 ^ 52 \<le> (n * 2 ^ s) div 1000000"
        by (intro le_div_int) simp_all
      also have "\<dots> \<le> ?m"
        by (rule round_half_even_ge_div) simp
      finally have "(2 :: int) ^ nat k * 2 ^ s \<le> ?m"
        by (simp add: power_add [symmetric] ks)
      moreover have "G * 2 ^ s < 2 ^ nat k * 2 ^ s"
        using Gk by (simp only: mult_less_cancel_right_pos zero_less_power zero_less_numeral)
      ultimately have "G * 2 ^ s < ?m"
        by (rule less_le_trans [rotated])
      then have "(of_int (G * 2 ^ s) :: rat) < of_int ?m"
        by (simp only: of_int_less_iff)
      then show ?thesis
        unfolding v by (simp add: pos_less_divide_eq)
    next
      case F: False
      define t where "t = nat e"
      have kt: "nat k = t + 52" using F by (simp add: t_def e_def)
      let ?m = "round_half_even n (1000000 * 2 ^ t)"
      have v: "total_seconds n = of_int (?m * 2 ^ t)"
        using pos F
        by (simp add: total_seconds_def double_of_ratio_def Let_def k_def [symmetric]
            e_def [symmetric] t_def)
      have dpos: "(0 :: int) < 1000000 * 2 ^ t" by simp
      have "(1000000 * 2 ^ t) * 2 ^ 52 \<le> n"
        using low by (simp add: kt power_add mult.assoc)
      then have "2 ^ 52 \<le> n div (1000000 * 2 ^ t)"
        using dpos by (intro le_div_int) simp_all
      also have "\<dots> \<le> ?m"
        by (rule round_half_even_ge_div [OF dpos])
      finally have "(2 :: int) ^ 52 * 2 ^ t \<le> ?m * 2 ^ t"
        by (intro mult_right_mono) simp_all
      then have "(2 :: int) ^ nat k \<le> ?m * 2 ^ t"
        by (simp add: kt power_add mult.commute)
      with Gk have "G < ?m * 2 ^ t" by simp
      then show ?thesis
        unfolding v by (simp only: of_int_less_iff)
    qed
    from lhs rhs show ?thesis by simp
  qed
qed

section \<open>Signal counting\<close>

lemma count_from_skip:
  "\<forall>c\<in>set pre. c \<noteq> hd sub \<Longrightarrow> sub \<noteq> [] \<Longrightarrow> count_from sub (pre @ r) = count_from sub r"
proof (induction pre)
  case Nil
  then show ?case by simp
next
  case (Cons a pre)
  then show ?case by (cases sub) auto
qed

lemma count_from_match:
  "sub \<noteq> [] \<Longrightarrow> count_from sub (sub @ r) = Suc (count_from sub r)"
  by (cases sub) auto

lemma count_from_miss:
  "take (length sub) (c # cs) \<noteq> sub \<Longrightarrow> count_from sub (c # cs) = count_from sub cs"
  by simp

text \<open>
  An indicator that extends another one by a character is counted at most as often as
  the shorter one, when the shorter one cannot overlap itself.
\<close>

lemma count_from_extension_le:
  assumes ne: "sub \<noteq> []" and fresh: "hd sub \<notin> set (tl sub)" and x: "x \<noteq> hd sub"
  shows "count_from (sub @ [x]) t \<le> count_from sub t"
proof (induction t rule: length_induct)
  case (1 t)
  let ?ext = "sub @ [x]"
  have hd_ext: "hd ?ext = hd sub" using ne by simp
  show ?case
  proof (cases t)
    case Nil
    then show ?thesis by simp
  next
    case (Cons c cs)
    show ?thesis
    proof (cases "take (length ?ext) t = ?ext")
      case True
      then obtain r where r: "t = ?ext @ r"
        by (metis append_take_drop_id)
      have long: "count_from ?ext t = Suc (count_from ?ext r)"
        unfolding r by (rule count_from_match) simp
      have "t = sub @ ([x] @ r)" using r by simp
      then have "count_from sub t = Suc (count_from sub ([x] @ r))"
        using count_from_match [OF ne] by simp
      also have "count_from sub ([x] @ r) = count_from sub r"
        by (rule count_from_skip) (use x ne in auto)
      finally have short: "count_from sub t = Suc (count_from sub r)" .
      have "length r < length t" using r by simp
      with 1 have "count_from ?ext r \<le> count_from sub r" by blast
      with long short show ?thesis by simp
    next
      case False
      then have long: "count_from ?ext t = count_from ?ext cs"
        unfolding Cons by (rule count_from_miss)
      show ?thesis
      proof (cases "take (length sub) t = sub")
        case True
        then obtain r where r: "t = sub @ r"
          by (metis append_take_drop_id)
        then have cs: "cs = tl sub @ r" using Cons ne by (cases sub) auto
        have "count_from ?ext cs = count_from ?ext r"
          unfolding cs by (rule count_from_skip) (use fresh hd_ext in auto)
        moreover have "count_from sub t = Suc (count_from sub r)"
          unfolding r by (rule count_from_match [OF ne])
        moreover have "length r < length t" using r ne by simp
        with 1 have "count_from ?ext r \<le> count_from sub r" by blast
        ultimately show ?thesis using long by simp
      next
        case False
        then have "count_from sub t = count_from sub cs"
          unfolding Cons by (rule count_from_miss)
        moreover have "count_from ?ext cs \<le> count_from sub cs"
          using 1 Cons by simp
        ultimately show ?thesis using long by simp
      qed
    qed
  qed
qed

lemma foldl_count_sum:
  "foldl (\<lambda>count indicator. count + int (f indicator)) a xs = a + (\<Sum>i\<leftarrow>xs. int (f i))"
  by (induction xs arbitrary: a) auto

lemma count_indicators_sum:
  "count_indicators text0 indicators = (\<Sum>i\<leftarrow>indicators. int (str_count text0 i))"
  by (simp add: count_indicators_def foldl_count_sum)

lemma count_indicators_nonneg: "0 \<le> count_indicators text0 indicators"
  unfolding count_indicators_def
  by (induction indicators rule: rev_induct) auto

lemma perfect_counted_twice: "str_count text0 ''perfect!'' \<le> str_count text0 ''perfect''"
  using count_from_extension_le [of "''perfect''" "CHR ''!''" text0]
  by (simp add: str_count_def)

lemma success_count_of_session:
  "success_indicators_s (create_session lib xs uid pid n) =
     count_indicators
       (lower (join_space (map (\<lambda>i. user_query i @ '' '' @ claude_response i) xs)))
       success_indicators"
  by (simp add: create_session_def Let_def)

text \<open>
  C10. Signal counting adds up one independent substring count per indicator phrase, so
  one occurrence in the text is counted once for every indicator it contains: the text
  ``perfect!'' alone has success count 2, a session whose only turn is ``Perfect!'' gets
  success count 2, and in every text each occurrence of ``perfect!'' adds at least 2 to
  the success count.
\<close>

theorem overlapping_indicators_count_twice:
  "count_indicators text0 indicators = (\<Sum>i\<leftarrow>indicators. int (str_count text0 i)) \<and>
   count_indicators ''perfect!'' success_indicators = 2 \<and>
   success_indicators_s
     (create_session lib [sample_interaction ''p1'' t0 ''Perfect!'' []] uid pid 1) = 2 \<and>
   2 * int (str_count text0 ''perfect!'') \<le> count_indicators text0 success_indicators"
proof -
  have a: "count_indicators ''perfect!'' success_indicators = 2"
    by (simp add: count_indicators_def success_indicators_def str_count_def)
  have "lower (join_space [''Perfect!'' @ '' '' @ []]) = ''perfect! ''"
    by code_simp
  then have b: "success_indicators_s
     (create_session lib [sample_interaction ''p1'' t0 ''Perfect!'' []] uid pid 1) = 2"
    by (simp add: success_count_of_session sample_interaction_def count_indicators_def
        success_indicators_def str_count_def)
  have c: "2 * int (str_count text0 ''perfect!'') \<le> count_indicators text0 success_indicators"
    using perfect_counted_twice [of text0]
    by (simp add: count_indicators_sum success_indicators_def)
  from a b c show ?thesis
    by (simp add: count_indicators_sum)
qed

section \<open>Status classification\<close>

lemma scenario_b_status:
  "let S = group_into_sessions utc_lib scenario_b 30 in
     total_stuck S = 2 \<and> total_success S = 1 \<and> total_interactions S = 4 \<and>
     calculate_objective_status S = ''flow''"
  by code_simp

lemma scenario_b3_totals:
  "let S = group_into_sessions utc_lib (take 3 scenario_b) 30 in
     total_stuck S = 2 \<and> total_success S = 0"
  by code_simp

text \<open>
  C1 as stated fails: on scenario B (stuck count 2, success count 1, 4 interactions) the
  classification is \<open>flow\<close>, because the flow rule is the first branch of
  \<^verbatim>\<open>_calculate_objective_status\<close>.
\<close>

theorem stuck_precedence_counterexample:
  "total_stuck (group_into_sessions utc_lib scenario_b 30) = 2 \<and>
   total_success (group_into_sessions utc_lib scenario_b 30) = 1 \<and>
   total_interactions (group_into_sessions utc_lib scenario_b 30) = 4 \<and>
   calculate_objective_status (group_into_sessions utc_lib scenario_b 30) = ''flow''"
  using scenario_b_status by (simp add: Let_def)

text \<open>
  C1, amended. An aggregate with stuck count above 1 classifies as \<open>stuck\<close> unless its
  success count is positive and it has at most 6 interactions; then the flow rule, which
  is evaluated first, classifies it as \<open>flow\<close>.
\<close>

theorem stuck_unless_flow_rule:
  assumes "total_stuck sessions > 1"
  shows "calculate_objective_status sessions =
           (if total_success sessions > 0 \<and> total_interactions sessions \<le> 6
            then ''flow'' else ''stuck'')"
proof -
  have "sessions \<noteq> []"
    using assms by (auto simp: total_stuck_def)
  with assms show ?thesis
    by (simp add: calculate_objective_status_def)
qed

theorem stuck_unless_flow_rule_witness:
  "total_stuck (group_into_sessions utc_lib (take 3 scenario_b) 30) > 1 \<and>
   calculate_objective_status (group_into_sessions utc_lib (take 3 scenario_b) 30) = ''stuck''"
proof -
  have h: "total_stuck (group_into_sessions utc_lib (take 3 scenario_b) 30) > 1"
    using scenario_b3_totals by (simp add: Let_def)
  have "\<not> total_success (group_into_sessions utc_lib (take 3 scenario_b) 30) > 0"
    using scenario_b3_totals by (simp add: Let_def)
  with stuck_unless_flow_rule [OF h] h show ?thesis
    by simp
qed

section \<open>Segmentation\<close>

lemma interactions_create_session [simp]:
  "interactions (create_session lib c uid pid n) = c"
  by (simp add: create_session_def Let_def)

lemma sessions_of_Nil [simp]: "sessions_of lib uid pid n [] = []"
  by (simp add: sessions_of_def)

lemma sessions_of_Cons [simp]:
  "sessions_of lib uid pid n (c # cs) =
     create_session lib c uid pid n # sessions_of lib uid pid (Suc n) cs"
  by (simp add: sessions_of_def)

lemma interactions_sessions_of [simp]:
  "map interactions (sessions_of lib uid pid n cs) = cs"
  by (induction cs arbitrary: n) auto

lemma session_loop_chunks:
  "session_loop lib gap uid pid xs current n sessions =
     sessions @ sessions_of lib uid pid n (chunks (float_gap gap) current xs)"
  by (induction xs arbitrary: current n sessions) (auto simp: float_gap_def)

lemma foldl_dict_append_same_key:
  "\<forall>x\<in>set xs. key x = k \<Longrightarrow>
   foldl (\<lambda>d x. dict_append (key x) x d) [(k, vs)] xs = [(k, vs @ xs)]"
  by (induction xs arbitrary: vs) auto

lemma group_by_user_project_single:
  assumes "\<forall>x\<in>set xs. user_id x = uid \<and> project_id x = pid"
  shows "group_by_user_project xs = (if xs = [] then [] else [((uid, pid), xs)])"
proof (cases xs)
  case Nil
  then show ?thesis by (simp add: group_by_user_project_def)
next
  case (Cons x rest)
  have "\<forall>y\<in>set rest. (user_id y, project_id y) = (uid, pid)"
    using assms Cons by simp
  from foldl_dict_append_same_key [of rest "\<lambda>y. (user_id y, project_id y)", OF this]
  show ?thesis
    using assms Cons by (simp add: group_by_user_project_def)
qed

lemma group_into_sessions_single:
  assumes "\<forall>x\<in>set xs. user_id x = uid \<and> project_id x = pid"
  shows "group_into_sessions lib xs gap =
           sessions_of lib uid pid 1
             (chunks (float_gap gap) [] (sort_key interaction_timestamp xs))"
  using group_by_user_project_single [OF assms]
  by (cases "xs = []") (simp_all add: group_into_sessions_def session_loop_chunks)

lemma concat_chunks: "concat (chunks far current xs) = current @ xs"
  by (induction xs arbitrary: current) auto

lemma chunks_nonempty: "[] \<notin> set (chunks far current xs)"
  by (induction xs arbitrary: current) auto

lemma chunks_first:
  "current \<noteq> [] \<Longrightarrow> \<exists>r rest. chunks far current xs = (current @ r) # rest"
proof (induction xs arbitrary: current)
  case Nil
  then show ?case by simp
next
  case (Cons x xs)
  show ?case
  proof (cases "far (last current) x")
    case True
    with Cons.prems show ?thesis by simp
  next
    case False
    from Cons.IH [of "current @ [x]"] obtain r rest
      where "chunks far (current @ [x]) xs = ((current @ [x]) @ r) # rest" by auto
    with False show ?thesis by simp
  qed
qed

lemma chunks_within:
  "successively (\<lambda>a b. \<not> far a b) current \<Longrightarrow>
   \<forall>c\<in>set (chunks far current xs). successively (\<lambda>a b. \<not> far a b) c"
proof (induction xs arbitrary: current)
  case Nil
  then show ?case by simp
next
  case (Cons x xs)
  show ?case
  proof (cases "current \<noteq> [] \<and> far (last current) x")
    case True
    have "successively (\<lambda>a b. \<not> far a b) [x]" by simp
    from Cons.IH [OF this] Cons.prems True show ?thesis by simp
  next
    case False
    then have "successively (\<lambda>a b. \<not> far a b) (current @ [x])"
      using Cons.prems by (auto simp: successively_append_iff)
    from Cons.IH [OF this] False show ?thesis by auto
  qed
qed

lemma chunks_between:
  "successively (\<lambda>a b. far (last a) (hd b)) (chunks far current xs)"
proof (induction xs arbitrary: current)
  case Nil
  then show ?case by simp
next
  case (Cons x xs)
  show ?case
  proof (cases "current \<noteq> [] \<and> far (last current) x")
    case True
    obtain r rest where first: "chunks far [x] xs = ([x] @ r) # rest"
      using chunks_first [of "[x]" far xs] by auto
    from Cons.IH [of "[x]"] True first show ?thesis
      by (simp add: successively_Cons)
  next
    case False
    with Cons.IH [of "current @ [x]"] show ?thesis by auto
  qed
qed

text \<open>
  On a list sorted by timestamp and with a threshold under \<open>2\<^sup>3\<^sup>4\<close> seconds the float
  test of the source splits where the exact comparison does.
\<close>

lemma float_gap_exact:
  assumes "interaction_timestamp a \<le> interaction_timestamp b" and "gap * 60 < 2 ^ 34"
  shows "float_gap gap a b = exact_gap gap a b"
proof -
  have "0 \<le> interaction_timestamp b - interaction_timestamp a"
    using assms(1) by simp
  from total_seconds_gt_exact [OF this assms(2)] show ?thesis
    by (simp add: float_gap_def exact_gap_def us_per_minute_def mult.commute)
qed

lemma chunks_float_exact:
  "gap * 60 < 2 ^ 34 \<Longrightarrow> sorted (map interaction_timestamp (current @ xs)) \<Longrightarrow>
   chunks (float_gap gap) current xs = chunks (exact_gap gap) current xs"
proof (induction xs arbitrary: current)
  case Nil
  show ?case by simp
next
  case (Cons x xs)
  have tail: "sorted (map interaction_timestamp ([x] @ xs))"
    and more: "sorted (map interaction_timestamp ((current @ [x]) @ xs))"
    using Cons.prems(2) by (simp_all add: sorted_append)
  show ?case
  proof (cases "current = []")
    case True
    with Cons.IH [OF Cons.prems(1) tail] show ?thesis by simp
  next
    case False
    then have "interaction_timestamp (last current) \<le> interaction_timestamp x"
      using Cons.prems(2) by (simp add: sorted_append)
    from float_gap_exact [OF this Cons.prems(1)]
      Cons.IH [OF Cons.prems(1) tail] Cons.IH [OF Cons.prems(1) more]
    show ?thesis by simp
  qed
qed

lemma group_into_sessions_exact:
  assumes "\<forall>x\<in>set xs. user_id x = uid \<and> project_id x = pid" and "gap * 60 < 2 ^ 34"
  shows "group_into_sessions lib xs gap =
           sessions_of lib uid pid 1
             (chunks (exact_gap gap) [] (sort_key interaction_timestamp xs))"
  using chunks_float_exact [OF assms(2), of "[]" "sort_key interaction_timestamp xs"]
  by (simp add: group_into_sessions_single [OF assms(1)])

lemma create_session_fields [simp]:
  "start_time (create_session lib c uid pid n) = interaction_timestamp (hd c)"
  "end_time (create_session lib c uid pid n) = interaction_timestamp (last c)"
  "user_id_s (create_session lib c uid pid n) = uid"
  "project_id_s (create_session lib c uid pid n) = pid"
  by (simp_all add: create_session_def Let_def)

lemma sessions_of_fields:
  "s \<in> set (sessions_of lib uid pid n cs) \<Longrightarrow>
   start_time s = interaction_timestamp (hd (interactions s)) \<and>
   end_time s = interaction_timestamp (last (interactions s)) \<and>
   user_id_s s = uid \<and> project_id_s s = pid"
  by (induction cs arbitrary: n) auto

lemma sorted_concat_adjacent:
  assumes "sorted (map f (concat S))" and "[] \<notin> set S" and "Suc j < length S"
  shows "f (last (S ! j)) \<le> f (hd (S ! Suc j))"
proof -
  define A where "A = take j S"
  define B where "B = drop (Suc (Suc j)) S"
  have S: "S = A @ (S ! j) # (S ! Suc j) # B"
    unfolding A_def B_def
    using assms(3) by (metis Cons_nth_drop_Suc Suc_lessD id_take_nth_drop)
  have a: "S ! j \<noteq> []" and b: "S ! Suc j \<noteq> []"
    using assms(2,3) by (metis Suc_lessD nth_mem)+
  have "sorted (map f (concat (A @ (S ! j) # (S ! Suc j) # B)))"
    using assms(1) S by simp
  then have "\<forall>x\<in>set (S ! j). \<forall>y\<in>set (S ! Suc j). f x \<le> f y"
    by (auto simp: sorted_append)
  with a b show ?thesis by simp
qed

lemma far_apart_one_pair:
  "\<forall>x\<in>set far_apart. user_id x = ''developer_1'' \<and> project_id x = ''ecommerce_app''"
  by (simp add: far_apart_def sample_interaction_def)

lemma far_apart_float_gap: "\<not> float_gap 1064015190 (far_apart ! 0) (far_apart ! 1)"
  by code_simp

text \<open>
  C2 as stated fails for large thresholds. With the threshold 1064015190 minutes two
  records that are one microsecond more than the threshold apart stay in one session:
  \<^verbatim>\<open>total_seconds()\<close> of their difference is the float 63840911400.0, which is not
  greater than the threshold in seconds.
\<close>

theorem rounded_gap_keeps_session:
  "map interactions (group_into_sessions utc_lib far_apart 1064015190) = [far_apart] \<and>
   interaction_timestamp (far_apart ! 1) - interaction_timestamp (far_apart ! 0) =
     1064015190 * us_per_minute + 1 \<and>
   total_seconds (interaction_timestamp (far_apart ! 1) - interaction_timestamp (far_apart ! 0)) =
     of_int (1064015190 * 60)"
proof -
  have sorted: "sort_key interaction_timestamp far_apart = far_apart"
    by (simp add: far_apart_def sample_interaction_def t0_def datetime_min_def)
  obtain a b where two: "far_apart = [a, b]" and a: "a = far_apart ! 0" and b: "b = far_apart ! 1"
    by (simp add: far_apart_def)
  have "\<not> float_gap 1064015190 a b"
    using far_apart_float_gap by (simp add: a b)
  then have "chunks (float_gap 1064015190) [] [a, b] = [[a, b]]"
    by simp
  then have "chunks (float_gap 1064015190) [] far_apart = [far_apart]"
    by (simp add: two)
  then have a: "map interactions (group_into_sessions utc_lib far_apart 1064015190) = [far_apart]"
    by (simp add: group_into_sessions_single [OF far_apart_one_pair] sorted)
  have b: "interaction_timestamp (far_apart ! 1) - interaction_timestamp (far_apart ! 0) =
             1064015190 * us_per_minute + 1"
    by (simp add: far_apart_def sample_interaction_def t0_def datetime_min_def us_per_minute_def)
  have c: "total_seconds
             (interaction_timestamp (far_apart ! 1) - interaction_timestamp (far_apart ! 0)) =
           of_int (1064015190 * 60)"
    by code_simp
  from a b c show ?thesis by blast
qed

text \<open>
  C2, amended. For the records of one (author, scope) pair and any gap threshold the
  sessions are a partition of the input: their concatenation is the input sorted by
  timestamp (so each record is in exactly one session and the sessions follow one another
  in time), no session is empty, every session starts and ends at its first and last
  record, and a single record gives one session of that record. The threshold is tested
  on the float \<^verbatim>\<open>total_seconds()\<close>: for consecutive records of a session it is at most
  the threshold, between the last record of a session and the first of the next it is
  greater. For a threshold under \<open>2\<^sup>3\<^sup>4\<close> seconds these are the bounds on the exact
  differences: at most the threshold inside a session, more than the threshold between
  adjacent sessions.
\<close>

theorem segmentation_is_partition:
  assumes same: "\<forall>x\<in>set xs. user_id x = uid \<and> project_id x = pid"
  shows "let sessions = group_into_sessions lib xs gap; S = map interactions sessions in
     mset (concat S) = mset xs \<and>
     concat S = sort_key interaction_timestamp xs \<and>
     sorted (map interaction_timestamp (concat S)) \<and>
     (\<forall>s\<in>set S. s \<noteq> []) \<and>
     (\<forall>s\<in>set S. \<forall>i. Suc i < length s \<longrightarrow>
        total_seconds (interaction_timestamp (s ! Suc i) - interaction_timestamp (s ! i))
          \<le> of_int (gap * 60)) \<and>
     (\<forall>j. Suc j < length S \<longrightarrow>
        total_seconds (interaction_timestamp (hd (S ! Suc j)) -
                       interaction_timestamp (last (S ! j)))
          > of_int (gap * 60)) \<and>
     (gap * 60 < 2 ^ 34 \<longrightarrow>
        (\<forall>s\<in>set S. \<forall>i. Suc i < length s \<longrightarrow>
           interaction_timestamp (s ! Suc i) - interaction_timestamp (s ! i)
             \<le> gap * us_per_minute) \<and>
        (\<forall>j. Suc j < length S \<longrightarrow>
           interaction_timestamp (hd (S ! Suc j)) - interaction_timestamp (last (S ! j))
             > gap * us_per_minute)) \<and>
     (\<forall>j. Suc j < length S \<longrightarrow>
        interaction_timestamp (last (S ! j)) \<le> interaction_timestamp (hd (S ! Suc j))) \<and>
     (\<forall>s\<in>set sessions.
        start_time s = interaction_timestamp (hd (interactions s)) \<and>
        end_time s = interaction_timestamp (last (interactions s)) \<and>
        user_id_s s = uid \<and> project_id_s s = pid) \<and>
     (\<forall>x. xs = [x] \<longrightarrow> S = [[x]])"
proof -
  define S where "S = chunks (float_gap gap) [] (sort_key interaction_timestamp xs)"
  have sessions: "group_into_sessions lib xs gap = sessions_of lib uid pid 1 S"
    unfolding S_def by (rule group_into_sessions_single [OF same])
  have S: "map interactions (group_into_sessions lib xs gap) = S"
    by (simp add: sessions)
  have cat: "concat S = sort_key interaction_timestamp xs"
    by (simp add: S_def concat_chunks)
  have perm: "mset (concat S) = mset xs"
    by (simp add: cat)
  have srt: "sorted (map interaction_timestamp (concat S))"
    by (simp add: cat)
  have ne: "\<forall>s\<in>set S. s \<noteq> []"
    using chunks_nonempty [of "float_gap gap" "[]" "sort_key interaction_timestamp xs"]
    unfolding S_def by blast
  have within: "\<forall>s\<in>set S. \<forall>i. Suc i < length s \<longrightarrow>
        total_seconds (interaction_timestamp (s ! Suc i) - interaction_timestamp (s ! i))
          \<le> of_int (gap * 60)"
    using chunks_within [of "float_gap gap" "[]" "sort_key interaction_timestamp xs"]
    by (simp add: S_def successively_conv_nth float_gap_def not_less)
  have between: "\<forall>j. Suc j < length S \<longrightarrow>
        total_seconds (interaction_timestamp (hd (S ! Suc j)) -
                       interaction_timestamp (last (S ! j)))
          > of_int (gap * 60)"
    using chunks_between [of "float_gap gap" "[]" "sort_key interaction_timestamp xs"]
    by (simp add: S_def successively_conv_nth float_gap_def)
  have exact: "gap * 60 < 2 ^ 34 \<longrightarrow>
        (\<forall>s\<in>set S. \<forall>i. Suc i < length s \<longrightarrow>
           interaction_timestamp (s ! Suc i) - interaction_timestamp (s ! i)
             \<le> gap * us_per_minute) \<and>
        (\<forall>j. Suc j < length S \<longrightarrow>
           interaction_timestamp (hd (S ! Suc j)) - interaction_timestamp (last (S ! j))
             > gap * us_per_minute)"
  proof
    assume small: "gap * 60 < 2 ^ 34"
    have E: "S = chunks (exact_gap gap) [] (sort_key interaction_timestamp xs)"
      unfolding S_def by (rule chunks_float_exact [OF small]) simp
    have "\<forall>s\<in>set S. \<forall>i. Suc i < length s \<longrightarrow>
           interaction_timestamp (s ! Suc i) - interaction_timestamp (s ! i)
             \<le> gap * us_per_minute"
      using chunks_within [of "exact_gap gap" "[]" "sort_key interaction_timestamp xs"]
      by (simp add: E successively_conv_nth exact_gap_def not_less)
    moreover have "\<forall>j. Suc j < length S \<longrightarrow>
           interaction_timestamp (hd (S ! Suc j)) - interaction_timestamp (last (S ! j))
             > gap * us_per_minute"
      using chunks_between [of "exact_gap gap" "[]" "sort_key interaction_timestamp xs"]
      by (simp add: E successively_conv_nth exact_gap_def)
    ultimately show "(\<forall>s\<in>set S. \<forall>i. Suc i < length s \<longrightarrow>
           interaction_timestamp (s ! Suc i) - interaction_timestamp (s ! i)
             \<le> gap * us_per_minute) \<and>
        (\<forall>j. Suc j < length S \<longrightarrow>
           interaction_timestamp (hd (S ! Suc j)) - interaction_timestamp (last (S ! j))
             > gap * us_per_minute)"
      by (rule conjI)
  qed
  have ne': "[] \<notin> set S" using ne by blast
  have order: "\<forall>j. Suc j < length S \<longrightarrow>
        interaction_timestamp (last (S ! j)) \<le> interaction_timestamp (hd (S ! Suc j))"
    using sorted_concat_adjacent [OF srt ne'] by blast
  have fields: "\<forall>s\<in>set (group_into_sessions lib xs gap).
        start_time s = interaction_timestamp (hd (interactions s)) \<and>
        end_time s = interaction_timestamp (last (interactions s)) \<and>
        user_id_s s = uid \<and> project_id_s s = pid"
    unfolding sessions using sessions_of_fields by blast
  have single: "\<forall>x. xs = [x] \<longrightarrow> S = [[x]]"
    by (simp add: S_def)
  note all = conjI [OF perm conjI [OF cat conjI [OF srt conjI [OF ne conjI [OF within
    conjI [OF between conjI [OF exact conjI [OF order conjI [OF fields single]]]]]]]]]
  show ?thesis
    unfolding Let_def S by (rule all)
qed

lemma scenario_a_one_pair:
  "\<forall>x\<in>set scenario_a. user_id x = ''developer_1'' \<and> project_id x = ''ecommerce_app''"
  by (simp add: scenario_a_def sample_interaction_def)

lemma scenario_a_chunks:
  "chunks (exact_gap 30) [] (sort_key interaction_timestamp scenario_a) =
     [take 3 scenario_a, drop 3 scenario_a]"
  by (simp add: scenario_a_def sample_interaction_def t0_def us_per_minute_def exact_gap_def)

lemma scenario_a_sessions:
  "group_into_sessions lib scenario_a 30 =
     sessions_of lib ''developer_1'' ''ecommerce_app'' 1 [take 3 scenario_a, drop 3 scenario_a]"
  by (simp add: group_into_sessions_exact [OF scenario_a_one_pair] scenario_a_chunks)

theorem segmentation_is_partition_witness:
  "list_all (\<lambda>x. user_id x = ''developer_1'' \<and> project_id x = ''ecommerce_app'') scenario_a \<and>
   (30 :: int) * 60 < 2 ^ 34 \<and>
   map interactions (group_into_sessions utc_lib scenario_a 30) =
     [take 3 scenario_a, drop 3 scenario_a] \<and>
   concat (map interactions (group_into_sessions utc_lib scenario_a 30)) =
     sort_key interaction_timestamp scenario_a \<and>
   mset (concat (map interactions (group_into_sessions utc_lib scenario_a 30))) =
     mset scenario_a \<and>
   interaction_timestamp (hd (drop 3 scenario_a)) - interaction_timestamp (last (take 3 scenario_a))
     > 30 * us_per_minute"
proof -
  note h = scenario_a_one_pair
  have a: "list_all (\<lambda>x. user_id x = ''developer_1'' \<and> project_id x = ''ecommerce_app'')
             scenario_a"
    using h by (simp add: list_all_iff)
  have small: "(30 :: int) * 60 < 2 ^ 34" by simp
  have b: "map interactions (group_into_sessions utc_lib scenario_a 30) =
     [take 3 scenario_a, drop 3 scenario_a]"
    by (simp add: scenario_a_sessions)
  note inst = segmentation_is_partition [OF h, of utc_lib 30, unfolded Let_def b]
  from inst have c: "concat [take 3 scenario_a, drop 3 scenario_a] =
             sort_key interaction_timestamp scenario_a"
    and d: "mset (concat [take 3 scenario_a, drop 3 scenario_a]) = mset scenario_a"
    by blast+
  from inst small
  have "\<forall>j. Suc j < length [take 3 scenario_a, drop 3 scenario_a] \<longrightarrow>
           interaction_timestamp (hd ([take 3 scenario_a, drop 3 scenario_a] ! Suc j)) -
           interaction_timestamp (last ([take 3 scenario_a, drop 3 scenario_a] ! j))
             > 30 * us_per_minute"
    by blast
  from this [rule_format, of 0]
  have e: "interaction_timestamp (hd (drop 3 scenario_a)) -
           interaction_timestamp (last (take 3 scenario_a)) > 30 * us_per_minute"
    by simp
  from a small b c d e show ?thesis
    unfolding b by (intro conjI)
qed

section \<open>Parsing a batch of logs\<close>

lemma parse_log_ok_iff:
  "(\<exists>i. parse_log lib entry = Inr i) = well_formed lib entry"
  by (auto simp: parse_log_def err_bind_def getitem_def parse_timestamp_def well_formed_def
      split: option.splits sum.splits)

lemma parse_chat_logs_ok_iff:
  "(\<exists>r. parse_chat_logs lib logs = Inr r) = list_all (well_formed lib) logs"
proof (induction logs)
  case Nil
  show ?case by simp
next
  case (Cons entry logs)
  show ?case
    using Cons.IH parse_log_ok_iff [of lib entry]
    by (auto split: sum.splits)
qed

lemma parse_chat_logs_results:
  "parse_chat_logs lib logs = Inr r \<Longrightarrow> map Inr r = map (parse_log lib) logs"
  by (induction logs arbitrary: r) (auto split: sum.splits)

lemma parse_chat_logs_first_error:
  "list_all (well_formed lib) pre \<Longrightarrow> parse_log lib bad = Inl e \<Longrightarrow>
   parse_chat_logs lib (pre @ bad # post) = Inl e"
proof (induction pre)
  case Nil
  then show ?case by simp
next
  case (Cons entry pre)
  then have "well_formed lib entry" by simp
  then obtain i where "parse_log lib entry = Inr i"
    using parse_log_ok_iff [of lib entry] by blast
  with Cons show ?case by simp
qed

lemma sample_log_parsed:
  "parse_log utc_lib sample_log =
     Inr \<lparr>id_str = ''550e8400-e29b-41d4-a716-446655440000'',
          user_query = ''I'm getting a JWT authentication error in auth.js'',
          claude_response = ''Let me help you debug the JWT authentication issue...'',
          user_id = ''developer_1'', project_id = ''ecommerce_app'',
          interaction_timestamp = t0, created_at = t0, updated_at = t0\<rparr>"
  by code_simp

lemma log_without_user_error:
  "parse_log utc_lib log_without_user = Inl (KeyError ''user_id'')"
  by code_simp

lemma log_with_bad_timestamp_error:
  "parse_log utc_lib log_with_bad_timestamp = Inl ValueError"
  by code_simp

lemma sample_log_well_formed: "well_formed utc_lib sample_log"
  using parse_log_ok_iff [of utc_lib sample_log] sample_log_parsed by simp

text \<open>
  C3 as stated fails: a batch whose first log lacks \<^verbatim>\<open>user_id\<close> and whose second log is
  well formed raises \<^verbatim>\<open>KeyError\<close>, and a batch whose second log has an unparseable
  timestamp raises \<^verbatim>\<open>ValueError\<close>; in both cases nothing is returned for the well-formed
  log.
\<close>

theorem malformed_record_aborts_batch:
  "well_formed utc_lib sample_log \<and>
   parse_chat_logs utc_lib [log_without_user, sample_log] = Inl (KeyError ''user_id'') \<and>
   parse_chat_logs utc_lib [sample_log, log_with_bad_timestamp] = Inl ValueError"
  using sample_log_well_formed
  by (simp add: sample_log_parsed log_without_user_error log_with_bad_timestamp_error)

text \<open>
  C3, amended. \<^verbatim>\<open>parse_chat_logs\<close> returns a result exactly when every log of the batch
  is well formed; the result then has the parsed interaction of every log, in order. When
  some log is malformed the whole batch fails with the exception of the first malformed
  log, and no partial result is returned.
\<close>

theorem parse_chat_logs_all_or_nothing:
  "((\<exists>r. parse_chat_logs lib logs = Inr r) = list_all (well_formed lib) logs) \<and>
   (\<forall>r. parse_chat_logs lib logs = Inr r \<longrightarrow> map Inr r = map (parse_log lib) logs) \<and>
   (\<forall>pre bad post e.
      logs = pre @ bad # post \<and> list_all (well_formed lib) pre \<and> parse_log lib bad = Inl e
        \<longrightarrow> parse_chat_logs lib logs = Inl e)"
  using parse_chat_logs_ok_iff [of lib logs] parse_chat_logs_results [of lib logs]
    parse_chat_logs_first_error [of lib]
  by blast

theorem parse_chat_logs_all_or_nothing_witness:
  "list_all (well_formed utc_lib) [sample_log, sample_log] \<and>
   length (projr (parse_chat_logs utc_lib [sample_log, sample_log])) = 2 \<and>
   list_all (well_formed utc_lib) [sample_log] \<and>
   parse_log utc_lib log_with_bad_timestamp = Inl ValueError \<and>
   parse_chat_logs utc_lib ([sample_log] @ log_with_bad_timestamp # [sample_log]) =
     Inl ValueError"
proof -
  have wf: "list_all (well_formed utc_lib) [sample_log, sample_log]"
    using sample_log_well_formed by simp
  have wf1: "list_all (well_formed utc_lib) [sample_log]"
    using sample_log_well_formed by simp
  from parse_chat_logs_all_or_nothing [of utc_lib "[sample_log, sample_log]"] wf
  obtain r where r: "parse_chat_logs utc_lib [sample_log, sample_log] = Inr r"
    and m: "map Inr r = map (parse_log utc_lib) [sample_log, sample_log]"
    by blast
  from m have "length r = 2"
    by (metis length_map length_Cons list.size(3) numeral_2_eq_2)
  with r have len: "length (projr (parse_chat_logs utc_lib [sample_log, sample_log])) = 2"
    by simp
  from parse_chat_logs_all_or_nothing
         [of utc_lib "[sample_log] @ log_with_bad_timestamp # [sample_log]"]
       wf1 log_with_bad_timestamp_error
  have "parse_chat_logs utc_lib ([sample_log] @ log_with_bad_timestamp # [sample_log]) =
          Inl ValueError"
    by blast
  with wf wf1 len log_with_bad_timestamp_error show ?thesis by blast
qed

section \<open>The activity status\<close>

lemma cutoff_time_ok:
  assumes "datetime_min \<le> now" and "now \<le> datetime_max"
    and "datetime_min \<le> now - h * us_per_hour" and "now - h * us_per_hour \<le> datetime_max"
  shows "cutoff_time now h = Inr (now - h * us_per_hour)"
  using assms
  by (simp add: cutoff_time_def Let_def datetime_min_def datetime_max_def timedelta_min_def
      timedelta_max_def)

lemma foldl_append_concat: "foldl (\<lambda>acc s. acc @ f s) a xs = a @ concat (map f xs)"
  by (induction xs arbitrary: a) auto

lemma status_idle:
  assumes "cutoff_time now h = Inr c" and "recent_sessions_of sessions uid pid c = []"
  shows "calculate_developer_status lib now sessions uid pid h = Inr (idle_activity uid pid)"
  using assms by (simp add: calculate_developer_status_def err_bind_def Let_def)

lemma status_active:
  assumes "cutoff_time now h = Inr c" and "recent_sessions_of sessions uid pid c \<noteq> []"
    and "R = sort_by_recency (recent_sessions_of sessions uid pid c)"
  shows "calculate_developer_status lib now sessions uid pid h =
     Inr \<lparr>user_id_a = uid, project_id_a = pid,
          current_task = infer_current_task (hd R),
          status = calculate_objective_status R,
          last_activity = end_time (hd R),
          duration_minutes_a = total_duration R,
          files_working_on = take 5 (set_order lib (files_of R)),
          recent_problems = last3 (concat (map problems_encountered R)),
          iteration_count = total_interactions R,
          success_rate = real_of_int (total_success R) /
                         real_of_int (max (total_interactions R) 1)\<rparr>"
  using assms
  by (simp add: calculate_developer_status_def err_bind_def Let_def foldl_append_concat
      files_of_def)

lemma status_error:
  "cutoff_time now h = Inl e \<Longrightarrow>
   calculate_developer_status lib now sessions uid pid h = Inl e"
  by (simp add: calculate_developer_status_def err_bind_def)

lemma mset_sort_by_recency: "mset (sort_by_recency sessions) = mset sessions"
  by (simp add: sort_by_recency_def)

lemma sum_list_sort_by_recency:
  "(\<Sum>s\<leftarrow>sort_by_recency sessions. (f s :: int)) = (\<Sum>s\<leftarrow>sessions. f s)"
proof -
  have "mset (map f (sort_by_recency sessions)) = mset (map f sessions)"
    by (simp add: mset_sort_by_recency)
  then show ?thesis
    by (metis sum_mset_sum_list)
qed

lemma totals_sort_by_recency:
  "total_success (sort_by_recency sessions) = total_success sessions"
  "total_interactions (sort_by_recency sessions) = total_interactions sessions"
  "total_stuck (sort_by_recency sessions) = total_stuck sessions"
  "total_duration (sort_by_recency sessions) = total_duration sessions"
  by (simp_all add: total_success_def total_interactions_def total_stuck_def
      total_duration_def sum_list_sort_by_recency)

lemma sorted_sort_by_recency: "sorted (rev (map end_time (sort_by_recency sessions)))"
  by (simp add: sort_by_recency_def rev_map)

lemma total_interactions_nonneg: "0 \<le> total_interactions sessions"
  unfolding total_interactions_def by (induction sessions) auto

lemma total_success_nonneg:
  "\<forall>s\<in>set sessions. 0 \<le> success_indicators_s s \<Longrightarrow> 0 \<le> total_success sessions"
  unfolding total_success_def by (induction sessions) auto

lemma session_counts_nonneg:
  "0 \<le> success_indicators_s (create_session lib c uid pid n)"
  "0 \<le> stuck_indicators_s (create_session lib c uid pid n)"
  by (simp_all add: create_session_def Let_def count_indicators_nonneg)

lemma scenario_a_status:
  "calculate_developer_status utc_lib (t0 + 60 * us_per_minute)
     (group_into_sessions utc_lib scenario_a 30) ''developer_1'' ''ecommerce_app'' 2 =
   Inr \<lparr>user_id_a = ''developer_1'', project_id_a = ''ecommerce_app'',
        current_task = ''Debugging: problem four...'', status = ''flow'',
        last_activity = t0 + 50 * us_per_minute,
        duration_minutes_a = 11, files_working_on = [],
        recent_problems = [''error one'', ''bug two'', ''crash three''],
        iteration_count = 4, success_rate = 0\<rparr>"
  by code_simp

lemma scenario_a_end_times:
  "map end_time (group_into_sessions lib scenario_a 30) =
     [t0 + 10 * us_per_minute, t0 + 50 * us_per_minute]"
  by (simp add: scenario_a_sessions) (simp add: scenario_a_def sample_interaction_def)

lemma scenario_a_users:
  "s \<in> set (group_into_sessions lib scenario_a 30) \<Longrightarrow>
   user_id_s s = ''developer_1'' \<and> project_id_s s = ''ecommerce_app''"
  by (auto simp: scenario_a_sessions)

lemma scenario_a_recent:
  "recent_sessions_of (group_into_sessions lib scenario_a 30) ''developer_1'' ''ecommerce_app'' c =
     filter (\<lambda>s. end_time s > c) (group_into_sessions lib scenario_a 30)"
  unfolding recent_sessions_of_def
  by (rule filter_cong) (auto dest: scenario_a_users)

section \<open>No session inside the lookback window\<close>

text \<open>
  C6 as stated fails: the cutoff \<^verbatim>\<open>datetime.now(timezone.utc) - timedelta(hours=...)\<close> is
  computed before any session is looked at. With no session at all and a lookback of
  20000000 hours the cutoff lies before year 1 and the call raises \<^verbatim>\<open>OverflowError\<close>.
\<close>

theorem huge_lookback_raises:
  "recent_sessions_of [] ''developer_1'' ''ecommerce_app'' (t0 - 20000000 * us_per_hour) = [] \<and>
   calculate_developer_status utc_lib t0 [] ''developer_1'' ''ecommerce_app'' 20000000 =
     Inl OverflowError"
  by (simp add: recent_sessions_of_def calculate_developer_status_def err_bind_def
      cutoff_time_def Let_def t0_def us_per_hour_def datetime_min_def datetime_max_def
      timedelta_min_def timedelta_max_def)

text \<open>
  C6, amended. When no session of the person and scope ends after the cutoff, the call
  has one of two outcomes, decided by the lookback alone: if the lookback is a timedelta
  and the cutoff is a datetime, the result is the idle default (state \<open>idle\<close>, no files,
  no recent problems, interaction count 0 and success ratio 0), a value and not an
  exception; otherwise the call raises \<^verbatim>\<open>OverflowError\<close>.
\<close>

theorem no_recent_sessions_idle_or_overflow:
  assumes none: "\<forall>s\<in>set sessions.
                 user_id_s s = uid \<and> project_id_s s = pid \<longrightarrow> end_time s \<le> now - h * us_per_hour"
  shows "calculate_developer_status lib now sessions uid pid h =
           (if timedelta_min \<le> h * us_per_hour \<and> h * us_per_hour \<le> timedelta_max \<and>
               datetime_min \<le> now - h * us_per_hour \<and> now - h * us_per_hour \<le> datetime_max
            then Inr (idle_activity uid pid) else Inl OverflowError) \<and>
         status (idle_activity uid pid) = ''idle'' \<and>
         files_working_on (idle_activity uid pid) = [] \<and>
         recent_problems (idle_activity uid pid) = [] \<and>
         iteration_count (idle_activity uid pid) = 0 \<and>
         success_rate (idle_activity uid pid) = 0"
proof -
  have empty: "recent_sessions_of sessions uid pid (now - h * us_per_hour) = []"
    unfolding recent_sessions_of_def filter_empty_conv using none by fastforce
  have "calculate_developer_status lib now sessions uid pid h =
           (if timedelta_min \<le> h * us_per_hour \<and> h * us_per_hour \<le> timedelta_max \<and>
               datetime_min \<le> now - h * us_per_hour \<and> now - h * us_per_hour \<le> datetime_max
            then Inr (idle_activity uid pid) else Inl OverflowError)"
  proof (cases "timedelta_min \<le> h * us_per_hour \<and> h * us_per_hour \<le> timedelta_max \<and>
               datetime_min \<le> now - h * us_per_hour \<and> now - h * us_per_hour \<le> datetime_max")
    case True
    then have "cutoff_time now h = Inr (now - h * us_per_hour)"
      by (simp add: cutoff_time_def Let_def)
    from status_idle [OF this empty] True show ?thesis by simp
  next
    case False
    then have "cutoff_time now h = Inl OverflowError"
      by (auto simp: cutoff_time_def Let_def)
    from status_error [OF this] False show ?thesis by simp
  qed
  then show ?thesis
    by (simp add: idle_activity_def)
qed

theorem no_recent_sessions_idle_or_overflow_witness:
  "list_all (\<lambda>s. end_time s \<le> t0 + 300 * us_per_minute - 2 * us_per_hour)
     (group_into_sessions utc_lib scenario_a 30) \<and>
   calculate_developer_status utc_lib (t0 + 300 * us_per_minute)
     (group_into_sessions utc_lib scenario_a 30) ''developer_1'' ''ecommerce_app'' 2 =
     Inr (idle_activity ''developer_1'' ''ecommerce_app'') \<and>
   list_all (\<lambda>s. end_time s \<le> t0 - (- 80000000) * us_per_hour)
     (group_into_sessions utc_lib scenario_a 30) \<and>
   datetime_max < t0 - (- 80000000) * us_per_hour \<and>
   calculate_developer_status utc_lib t0
     (group_into_sessions utc_lib scenario_a 30) ''developer_1'' ''ecommerce_app'' (- 80000000) =
     Inl OverflowError"
proof -
  let ?now = "t0 + 300 * us_per_minute"
  let ?S = "group_into_sessions utc_lib scenario_a 30"
  have "\<forall>e\<in>set (map end_time ?S). e \<le> ?now - 2 * us_per_hour"
    unfolding scenario_a_end_times by (simp add: us_per_minute_def us_per_hour_def)
  then have 1: "\<forall>s\<in>set ?S. end_time s \<le> ?now - 2 * us_per_hour"
    by simp
  then have 2: "\<forall>s\<in>set ?S. user_id_s s = ''developer_1'' \<and> project_id_s s = ''ecommerce_app''
                  \<longrightarrow> end_time s \<le> ?now - 2 * us_per_hour"
    by blast
  have r: "timedelta_min \<le> 2 * us_per_hour \<and> 2 * us_per_hour \<le> timedelta_max \<and>
           datetime_min \<le> ?now - 2 * us_per_hour \<and> ?now - 2 * us_per_hour \<le> datetime_max"
    by (simp add: t0_def us_per_minute_def us_per_hour_def datetime_min_def datetime_max_def
        timedelta_min_def timedelta_max_def)
  from no_recent_sessions_idle_or_overflow [OF 2, of utc_lib] r
  have 3: "calculate_developer_status utc_lib ?now ?S ''developer_1'' ''ecommerce_app'' 2 =
             Inr (idle_activity ''developer_1'' ''ecommerce_app'')"
    by simp
  have "\<forall>e\<in>set (map end_time ?S). e \<le> t0 - (- 80000000) * us_per_hour"
    unfolding scenario_a_end_times by (simp add: us_per_minute_def us_per_hour_def)
  then have 4: "\<forall>s\<in>set ?S. end_time s \<le> t0 - (- 80000000) * us_per_hour"
    by simp
  then have 5: "\<forall>s\<in>set ?S. user_id_s s = ''developer_1'' \<and> project_id_s s = ''ecommerce_app''
                  \<longrightarrow> end_time s \<le> t0 - (- 80000000) * us_per_hour"
    by blast
  have 6: "datetime_max < t0 - (- 80000000) * us_per_hour"
    by (simp add: t0_def us_per_hour_def datetime_max_def)
  then have "\<not> (timedelta_min \<le> (- 80000000) * us_per_hour \<and>
                (- 80000000) * us_per_hour \<le> timedelta_max \<and>
                datetime_min \<le> t0 - (- 80000000) * us_per_hour \<and>
                t0 - (- 80000000) * us_per_hour \<le> datetime_max)"
    by simp
  with no_recent_sessions_idle_or_overflow [OF 5, of utc_lib]
  have 7: "calculate_developer_status utc_lib t0 ?S ''developer_1'' ''ecommerce_app''
             (- 80000000) = Inl OverflowError"
    by simp
  have l1: "list_all (\<lambda>s. end_time s \<le> ?now - 2 * us_per_hour) ?S"
    using 1 by (simp add: list_all_iff)
  have l4: "list_all (\<lambda>s. end_time s \<le> t0 - (- 80000000) * us_per_hour) ?S"
    using 4 by (simp add: list_all_iff)
  from l1 3 l4 6 7 show ?thesis
    by (intro conjI)
qed

lemma scenario_p_status:
  "calculate_developer_status utc_lib (t0 + 60 * us_per_minute)
     (group_into_sessions utc_lib scenario_p 30) ''developer_1'' ''ecommerce_app'' 2 =
   Inr \<lparr>user_id_a = ''developer_1'', project_id_a = ''ecommerce_app'',
        current_task = ''General development'', status = ''flow'', last_activity = t0,
        duration_minutes_a = 1, files_working_on = [], recent_problems = [],
        iteration_count = 1, success_rate = 4\<rparr>"
  by code_simp

text \<open>
  C4 as stated fails: one interaction whose text is ``perfect! that fixed it'' and
  ``great'' has four success signals, and the success ratio of its status is 4.
\<close>

theorem success_ratio_above_one:
  "calculate_developer_status utc_lib (t0 + 60 * us_per_minute)
     (group_into_sessions utc_lib scenario_p 30) ''developer_1'' ''ecommerce_app'' 2 =
   Inr \<lparr>user_id_a = ''developer_1'', project_id_a = ''ecommerce_app'',
        current_task = ''General development'', status = ''flow'', last_activity = t0,
        duration_minutes_a = 1, files_working_on = [], recent_problems = [],
        iteration_count = 1, success_rate = 4\<rparr> \<and>
   (1 :: real) < 4"
  using scenario_p_status by simp

text \<open>
  C4, amended. The success ratio is the number of success-signal occurrences of the
  in-window sessions divided by their interaction count (by 1 when that is 0). For
  sessions with non-negative signal counts it is at least 0, and it is at most 1
  whenever the occurrences do not outnumber the interactions.
\<close>

theorem success_ratio_bounds:
  assumes res: "calculate_developer_status lib now sessions uid pid h = Inr a"
    and nonneg: "\<forall>s\<in>set sessions. 0 \<le> success_indicators_s s"
  shows "0 \<le> success_rate a \<and>
         (\<exists>c. cutoff_time now h = Inr c \<and>
            (let R = recent_sessions_of sessions uid pid c in
               success_rate a = real_of_int (total_success R) /
                                real_of_int (max (total_interactions R) 1) \<and>
               (total_success R \<le> total_interactions R \<longrightarrow> success_rate a \<le> 1)))"
proof -
  obtain c where c: "cutoff_time now h = Inr c"
    using res status_error [of now h _ lib sessions uid pid]
    by (cases "cutoff_time now h") auto
  define R where "R = recent_sessions_of sessions uid pid c"
  have "\<forall>s\<in>set R. 0 \<le> success_indicators_s s"
    using nonneg by (simp add: R_def recent_sessions_of_def)
  then have ts: "0 \<le> total_success R"
    by (rule total_success_nonneg)
  have rate: "success_rate a = real_of_int (total_success R) /
                               real_of_int (max (total_interactions R) 1)"
  proof (cases "R = []")
    case True
    with status_idle [OF c, of sessions uid pid lib] res show ?thesis
      by (simp add: R_def idle_activity_def total_success_def)
  next
    case False
    with status_active [OF c _ refl, of sessions uid pid lib] res show ?thesis
      by (auto simp: R_def totals_sort_by_recency)
  qed
  have pos: "0 \<le> success_rate a"
    unfolding rate using ts by simp
  have le: "success_rate a \<le> 1" if "total_success R \<le> total_interactions R"
  proof -
    have "real_of_int (total_success R) \<le> real_of_int (max (total_interactions R) 1)"
      using that by simp
    moreover have "0 < real_of_int (max (total_interactions R) 1)"
      by simp
    ultimately show ?thesis
      unfolding rate by (simp only: divide_le_eq_1_pos)
  qed
  from c rate pos le show ?thesis
    unfolding R_def Let_def by blast
qed

theorem success_ratio_bounds_witness:
  "calculate_developer_status utc_lib (t0 + 60 * us_per_minute)
     (group_into_sessions utc_lib scenario_a 30) ''developer_1'' ''ecommerce_app'' 2 =
   Inr \<lparr>user_id_a = ''developer_1'', project_id_a = ''ecommerce_app'',
        current_task = ''Debugging: problem four...'', status = ''flow'',
        last_activity = t0 + 50 * us_per_minute,
        duration_minutes_a = 11, files_working_on = [],
        recent_problems = [''error one'', ''bug two'', ''crash three''],
        iteration_count = 4, success_rate = 0\<rparr> \<and>
   list_all (\<lambda>s. 0 \<le> success_indicators_s s) (group_into_sessions utc_lib scenario_a 30)"
proof -
  have n: "\<forall>s\<in>set (group_into_sessions utc_lib scenario_a 30). 0 \<le> success_indicators_s s"
    by (simp add: scenario_a_sessions session_counts_nonneg)
  from success_ratio_bounds [OF scenario_a_status n] n scenario_a_status
  show ?thesis
    by (simp add: list_all_iff)
qed

section \<open>The recent problems\<close>

lemma problems_create_session [simp]:
  "problems_encountered (create_session lib c uid pid n) = extract_problems (map user_query c)"
  by (simp add: create_session_def Let_def)

lemma scenario_a_problems:
  "map problems_encountered (group_into_sessions lib scenario_a 30) =
     [[''error one'', ''bug two'', ''crash three''], [''problem four'']]"
proof -
  have "extract_problems (map user_query (take 3 scenario_a)) =
          [''error one'', ''bug two'', ''crash three'']"
    by code_simp
  moreover have "extract_problems (map user_query (drop 3 scenario_a)) = [''problem four'']"
    by code_simp
  ultimately show ?thesis
    by (simp add: scenario_a_sessions)
qed

lemma scenario_a_by_recency:
  "sort_by_recency (group_into_sessions lib scenario_a 30) =
     rev (group_into_sessions lib scenario_a 30)"
proof -
  obtain s1 s2 where S: "group_into_sessions lib scenario_a 30 = [s1, s2]"
    by (simp add: scenario_a_sessions)
  from scenario_a_end_times [of lib]
  have "end_time s1 = t0 + 10 * us_per_minute" and "end_time s2 = t0 + 50 * us_per_minute"
    by (simp_all add: S)
  then show ?thesis
    by (simp add: S sort_by_recency_def us_per_minute_def)
qed

text \<open>
  C9: the code diverges from the claim, from the name of the field and from its own
  comment \<^verbatim>\<open># Last 3 problems\<close>. The in-window sessions are sorted most recent first,
  their problem snippets are appended session by session in turn order, and
  \<^verbatim>\<open>all_problems[-3:]\<close> keeps the last three entries of that list: the snippets of the
  oldest sessions, oldest first. The newest problems are the ones dropped as soon as the
  window holds more than three snippets.
\<close>

theorem recent_problems_are_last_three:
  assumes res: "calculate_developer_status lib now sessions uid pid h = Inr a"
  shows "\<exists>c. cutoff_time now h = Inr c \<and>
           (let R = sort_by_recency (recent_sessions_of sessions uid pid c);
                problems = concat (map problems_encountered R)
            in sorted (rev (map end_time R)) \<and>
               mset R = mset (recent_sessions_of sessions uid pid c) \<and>
               recent_problems a = drop (length problems - 3) problems)"
proof -
  obtain c where c: "cutoff_time now h = Inr c"
    using res status_error [of now h _ lib sessions uid pid]
    by (cases "cutoff_time now h") auto
  define R where "R = sort_by_recency (recent_sessions_of sessions uid pid c)"
  define problems where "problems = concat (map problems_encountered R)"
  have rp: "recent_problems a = drop (length problems - 3) problems"
  proof (cases "recent_sessions_of sessions uid pid c = []")
    case True
    with status_idle [OF c, of sessions uid pid lib] res show ?thesis
      by (simp add: problems_def R_def idle_activity_def sort_by_recency_def)
  next
    case False
    with status_active [OF c _ refl, of sessions uid pid lib] res show ?thesis
      by (auto simp: problems_def R_def last3_def)
  qed
  have "sorted (rev (map end_time R))"
    unfolding R_def by (rule sorted_sort_by_recency)
  moreover have "mset R = mset (recent_sessions_of sessions uid pid c)"
    unfolding R_def by (rule mset_sort_by_recency)
  ultimately show ?thesis
    using c rp unfolding Let_def R_def problems_def by blast
qed

theorem recent_problems_miss_newest:
  "calculate_developer_status utc_lib (t0 + 60 * us_per_minute)
     (group_into_sessions utc_lib scenario_a 30) ''developer_1'' ''ecommerce_app'' 2 =
   Inr \<lparr>user_id_a = ''developer_1'', project_id_a = ''ecommerce_app'',
        current_task = ''Debugging: problem four...'', status = ''flow'',
        last_activity = t0 + 50 * us_per_minute,
        duration_minutes_a = 11, files_working_on = [],
        recent_problems = [''error one'', ''bug two'', ''crash three''],
        iteration_count = 4, success_rate = 0\<rparr> \<and>
   map end_time (sort_by_recency (recent_sessions_of (group_into_sessions utc_lib scenario_a 30)
       ''developer_1'' ''ecommerce_app'' (t0 + 60 * us_per_minute - 2 * us_per_hour))) =
     [t0 + 50 * us_per_minute, t0 + 10 * us_per_minute] \<and>
   map problems_encountered
     (sort_by_recency (recent_sessions_of (group_into_sessions utc_lib scenario_a 30)
       ''developer_1'' ''ecommerce_app'' (t0 + 60 * us_per_minute - 2 * us_per_hour))) =
     [[''problem four''], [''error one'', ''bug two'', ''crash three'']] \<and>
   [''error one'', ''bug two'', ''crash three''] =
     drop (length [''problem four'', ''error one'', ''bug two'', ''crash three''] - 3)
       [''problem four'', ''error one'', ''bug two'', ''crash three'']"
proof -
  let ?now = "t0 + 60 * us_per_minute"
  let ?S = "group_into_sessions utc_lib scenario_a 30"
  let ?c = "?now - 2 * us_per_hour"
  let ?R = "sort_by_recency (recent_sessions_of ?S ''developer_1'' ''ecommerce_app'' ?c)"
  have c: "cutoff_time ?now 2 = Inr ?c"
    by (rule cutoff_time_ok)
       (simp_all add: t0_def us_per_minute_def us_per_hour_def datetime_min_def
          datetime_max_def)
  have "\<forall>e\<in>set (map end_time ?S). e > ?c"
    unfolding scenario_a_end_times by (simp add: us_per_minute_def us_per_hour_def)
  then have "filter (\<lambda>s. end_time s > ?c) ?S = ?S"
    by (simp add: filter_id_conv)
  then have R: "?R = rev ?S"
    by (simp add: scenario_a_recent scenario_a_by_recency)
  have e: "map end_time ?R = [t0 + 50 * us_per_minute, t0 + 10 * us_per_minute]"
    unfolding R rev_map [symmetric] scenario_a_end_times by simp
  have p: "map problems_encountered ?R =
             [[''problem four''], [''error one'', ''bug two'', ''crash three'']]"
    unfolding R rev_map [symmetric] scenario_a_problems by simp
  from recent_problems_are_last_three [OF scenario_a_status] c
  have "[''error one'', ''bug two'', ''crash three''] =
          drop (length (concat (map problems_encountered ?R)) - 3)
            (concat (map problems_encountered ?R))"
    unfolding Let_def by auto
  then have d: "[''error one'', ''bug two'', ''crash three''] =
     drop (length [''problem four'', ''error one'', ''bug two'', ''crash three''] - 3)
       [''problem four'', ''error one'', ''bug two'', ''crash three'']"
    unfolding p by simp
  from scenario_a_status e p d show ?thesis
    by (intro conjI)
qed

section \<open>Non-positive configuration values\<close>

lemma chunks_negative_gap:
  "gap < 0 \<Longrightarrow> sorted (map interaction_timestamp (current @ xs)) \<Longrightarrow>
   chunks (float_gap gap) current xs =
     (if current = [] then [] else [current]) @ map (\<lambda>x. [x]) xs"
proof (induction xs arbitrary: current)
  case Nil
  then show ?case by simp
next
  case (Cons x xs)
  have tail: "sorted (map interaction_timestamp ([x] @ xs))"
    using Cons.prems(2) by (simp add: sorted_append)
  show ?case
  proof (cases "current = []")
    case True
    with Cons.IH [OF Cons.prems(1) tail] show ?thesis by simp
  next
    case False
    then have "0 \<le> interaction_timestamp x - interaction_timestamp (last current)"
      using Cons.prems(2) by (simp add: sorted_append)
    moreover have "gap * 60 < 0"
      using Cons.prems(1) by simp
    ultimately have "float_gap gap (last current) x"
      unfolding float_gap_def by (rule total_seconds_negative_limit)
    with False Cons.IH [OF Cons.prems(1) tail] show ?thesis by simp
  qed
qed

lemma negative_gap_singletons:
  assumes "gap < 0" and "\<forall>x\<in>set xs. user_id x = uid \<and> project_id x = pid"
  shows "map interactions (group_into_sessions lib xs gap) =
           map (\<lambda>x. [x]) (sort_key interaction_timestamp xs)"
proof -
  from chunks_negative_gap [OF assms(1), of "[]" "sort_key interaction_timestamp xs"]
  show ?thesis
    by (simp add: group_into_sessions_single [OF assms(2)])
qed

lemma non_positive_lookback_cutoff:
  assumes "h \<le> 0" and "datetime_min \<le> now" and "now - h * us_per_hour \<le> datetime_max"
  shows "cutoff_time now h = Inr (now - h * us_per_hour)"
proof -
  have "0 \<le> - (h * us_per_hour)"
    using assms(1) by (simp add: us_per_hour_def)
  then have "now \<le> now - h * us_per_hour" by simp
  with assms show ?thesis
    by (intro cutoff_time_ok) simp_all
qed

lemma scenario_a_early_status:
  "calculate_developer_status utc_lib (t0 - 120 * us_per_minute)
     (group_into_sessions utc_lib scenario_a 30) ''developer_1'' ''ecommerce_app'' (- 1) =
   Inr \<lparr>user_id_a = ''developer_1'', project_id_a = ''ecommerce_app'',
        current_task = ''Debugging: problem four...'', status = ''flow'',
        last_activity = t0 + 50 * us_per_minute,
        duration_minutes_a = 11, files_working_on = [],
        recent_problems = [''error one'', ''bug two'', ''crash three''],
        iteration_count = 4, success_rate = 0\<rparr>"
  by code_simp

lemma scenario_a_sorted:
  "sort_key interaction_timestamp scenario_a = scenario_a"
  by (simp add: scenario_a_def sample_interaction_def t0_def us_per_minute_def)

text \<open>
  C8 as stated fails: with the gap threshold \<open>-5\<close> segmentation returns four sessions of
  one record each, and with the lookback window \<open>-1\<close> the status is computed from the
  sessions that end after the clock reading plus one hour. Neither call is rejected.
\<close>

theorem non_positive_values_accepted:
  "map interactions (group_into_sessions utc_lib scenario_a (- 5)) =
     [[scenario_a ! 0], [scenario_a ! 1], [scenario_a ! 2], [scenario_a ! 3]] \<and>
   calculate_developer_status utc_lib (t0 - 120 * us_per_minute)
     (group_into_sessions utc_lib scenario_a 30) ''developer_1'' ''ecommerce_app'' (- 1) =
   Inr \<lparr>user_id_a = ''developer_1'', project_id_a = ''ecommerce_app'',
        current_task = ''Debugging: problem four...'', status = ''flow'',
        last_activity = t0 + 50 * us_per_minute,
        duration_minutes_a = 11, files_working_on = [],
        recent_problems = [''error one'', ''bug two'', ''crash three''],
        iteration_count = 4, success_rate = 0\<rparr>"
proof -
  have "(- 5 :: int) < 0" by simp
  from negative_gap_singletons [OF this scenario_a_one_pair, of utc_lib]
  have "map interactions (group_into_sessions utc_lib scenario_a (- 5)) =
          map (\<lambda>x. [x]) scenario_a"
    by (simp add: scenario_a_sorted)
  also have "\<dots> = [[scenario_a ! 0], [scenario_a ! 1], [scenario_a ! 2], [scenario_a ! 3]]"
    by (simp add: scenario_a_def)
  finally show ?thesis
    using scenario_a_early_status by simp
qed

text \<open>
  C8, amended. Non-positive configuration values are not rejected. With a negative gap
  threshold every record of an (author, scope) pair is a session of its own, in timestamp
  order. With a non-positive lookback window whose cutoff is still a datetime the status
  is computed as for any window: it is a value, and it is the idle default when no
  session ends after the clock reading.
\<close>

theorem non_positive_values_computed:
  "(gap < 0 \<and> (\<forall>x\<in>set xs. user_id x = uid \<and> project_id x = pid) \<longrightarrow>
      map interactions (group_into_sessions lib xs gap) =
        map (\<lambda>x. [x]) (sort_key interaction_timestamp xs)) \<and>
   (h \<le> 0 \<and> datetime_min \<le> now \<and> now - h * us_per_hour \<le> datetime_max \<longrightarrow>
      (\<exists>a. calculate_developer_status lib now sessions uid pid h = Inr a)) \<and>
   (h \<le> 0 \<and> datetime_min \<le> now \<and> now - h * us_per_hour \<le> datetime_max \<and>
    (\<forall>s\<in>set sessions. end_time s \<le> now) \<longrightarrow>
      calculate_developer_status lib now sessions uid pid h = Inr (idle_activity uid pid))"
proof (intro conjI impI)
  assume "gap < 0 \<and> (\<forall>x\<in>set xs. user_id x = uid \<and> project_id x = pid)"
  then show "map interactions (group_into_sessions lib xs gap) =
               map (\<lambda>x. [x]) (sort_key interaction_timestamp xs)"
    using negative_gap_singletons by blast
next
  assume a: "h \<le> 0 \<and> datetime_min \<le> now \<and> now - h * us_per_hour \<le> datetime_max"
  then have c: "cutoff_time now h = Inr (now - h * us_per_hour)"
    using non_positive_lookback_cutoff by blast
  show "\<exists>a. calculate_developer_status lib now sessions uid pid h = Inr a"
  proof (cases "recent_sessions_of sessions uid pid (now - h * us_per_hour) = []")
    case True
    from status_idle [OF c True] show ?thesis by blast
  next
    case False
    from status_active [OF c False refl] show ?thesis by blast
  qed
next
  assume a: "h \<le> 0 \<and> datetime_min \<le> now \<and> now - h * us_per_hour \<le> datetime_max \<and>
             (\<forall>s\<in>set sessions. end_time s \<le> now)"
  then have c: "cutoff_time now h = Inr (now - h * us_per_hour)"
    using non_positive_lookback_cutoff by blast
  have "0 \<le> - (h * us_per_hour)"
    using a by (simp add: us_per_hour_def)
  then have "now \<le> now - h * us_per_hour" by simp
  with a have "\<forall>s\<in>set sessions. \<not> end_time s > now - h * us_per_hour"
    by fastforce
  then have "recent_sessions_of sessions uid pid (now - h * us_per_hour) = []"
    unfolding recent_sessions_of_def filter_empty_conv by blast
  from status_idle [OF c this]
  show "calculate_developer_status lib now sessions uid pid h = Inr (idle_activity uid pid)" .
qed

theorem non_positive_values_computed_witness:
  "(- 5 :: int) < 0 \<and>
   list_all (\<lambda>x. user_id x = ''developer_1'' \<and> project_id x = ''ecommerce_app'') scenario_a \<and>
   map interactions (group_into_sessions utc_lib scenario_a (- 5)) =
     map (\<lambda>x. [x]) (sort_key interaction_timestamp scenario_a) \<and>
   (0 :: int) \<le> 0 \<and> datetime_min \<le> t0 + 60 * us_per_minute \<and>
   t0 + 60 * us_per_minute - 0 * us_per_hour \<le> datetime_max \<and>
   list_all (\<lambda>s. end_time s \<le> t0 + 60 * us_per_minute)
     (group_into_sessions utc_lib scenario_a 30) \<and>
   calculate_developer_status utc_lib (t0 + 60 * us_per_minute)
     (group_into_sessions utc_lib scenario_a 30) ''developer_1'' ''ecommerce_app'' 0 =
     Inr (idle_activity ''developer_1'' ''ecommerce_app'')"
proof -
  let ?now = "t0 + 60 * us_per_minute"
  let ?S = "group_into_sessions utc_lib scenario_a 30"
  have g: "(- 5 :: int) < 0" by simp
  have n: "datetime_min \<le> ?now" "?now - 0 * us_per_hour \<le> datetime_max"
    by (simp_all add: t0_def us_per_minute_def datetime_min_def datetime_max_def)
  have "\<forall>e\<in>set (map end_time ?S). e \<le> ?now"
    unfolding scenario_a_end_times by (simp add: us_per_minute_def)
  then have e: "\<forall>s\<in>set ?S. end_time s \<le> ?now"
    by simp
  note inst = non_positive_values_computed
    [of "- 5" scenario_a "''developer_1''" "''ecommerce_app''" utc_lib 0 ?now ?S]
  from inst g scenario_a_one_pair
  have 1: "map interactions (group_into_sessions utc_lib scenario_a (- 5)) =
             map (\<lambda>x. [x]) (sort_key interaction_timestamp scenario_a)"
    by blast
  from inst n e
  have 2: "calculate_developer_status utc_lib ?now ?S ''developer_1'' ''ecommerce_app'' 0 =
             Inr (idle_activity ''developer_1'' ''ecommerce_app'')"
    by blast
  from 1 2 g n e scenario_a_one_pair show ?thesis
    by (simp add: list_all_iff)
qed

section \<open>Collision detection\<close>

subsection \<open>The dictionary of sessions by user\<close>

lemma map_of_dict_append:
  "map_of (dict_append k v d) = (map_of d)(k \<mapsto> dict_get d k @ [v])"
  by (induction d) (auto simp: dict_get_def fun_eq_iff)

lemma dict_get_dict_append:
  "dict_get (dict_append k v d) k' = (if k' = k then dict_get d k @ [v] else dict_get d k')"
  by (simp add: dict_get_def map_of_dict_append)

lemma keys_dict_append:
  "map fst (dict_append k v d) =
     (if k \<in> set (map fst d) then map fst d else map fst d @ [k])"
  by (induction d) force+

lemma key_set_dict_append: "fst ` set (dict_append k v d) = insert k (fst ` set d)"
proof -
  have "set (map fst (dict_append k v d)) = insert k (set (map fst d))"
    unfolding keys_dict_append by auto
  then show ?thesis by simp
qed

lemma dict_get_Nil [simp]: "dict_get [] k = []"
  by (simp add: dict_get_def)

lemma distinct_keys_dict_append:
  "distinct (map fst d) \<Longrightarrow> distinct (map fst (dict_append k v d))"
  by (simp add: keys_dict_append)

lemma foldl_dict_append_get:
  "dict_get (foldl (\<lambda>d s. dict_append (key s) s d) d0 xs) u =
     dict_get d0 u @ filter (\<lambda>s. key s = u) xs"
  by (induction xs arbitrary: d0) (auto simp: dict_get_dict_append)

lemma foldl_dict_append_distinct:
  "distinct (map fst d0) \<Longrightarrow>
   distinct (map fst (foldl (\<lambda>d s. dict_append (key s) s d) d0 xs))"
  by (induction xs arbitrary: d0) (auto simp: distinct_keys_dict_append)

lemma foldl_dict_append_keys:
  "set (map fst (foldl (\<lambda>d s. dict_append (key s) s d) d0 xs)) =
     set (map fst d0) \<union> key ` set xs"
  by (induction xs arbitrary: d0) (simp_all add: key_set_dict_append)

lemma group_by_user_get: "dict_get (group_by_user R) u = sessions_by R u"
  by (simp add: group_by_user_def foldl_dict_append_get sessions_by_def)

lemma group_by_user_distinct: "distinct (map fst (group_by_user R))"
  by (simp add: group_by_user_def foldl_dict_append_distinct)

lemma group_by_user_keys: "set (map fst (group_by_user R)) = user_id_s ` set R"
  using foldl_dict_append_keys [of user_id_s "[]" R]
  by (simp add: group_by_user_def)

subsection \<open>One pair\<close>

lemma check_collision_file:
  assumes "files_of s1 \<inter> files_of s2 \<noteq> {}"
  shows "\<exists>c. check_collision lib t s1 s2 u1 u2 = Some c \<and>
             collision_type c = ''file_collision'' \<and> confidence c = 9 / 10 \<and>
             users c = [u1, u2]"
  using assms by (simp add: check_collision_def Let_def)

lemma check_collision_feature:
  assumes "check_collision lib t s1 s2 u1 u2 = Some c"
    and "collision_type c = ''feature_collision''"
  shows "files_of s1 \<inter> files_of s2 = {} \<and> features_of s1 \<inter> features_of s2 \<noteq> {} \<and>
         confidence c = 7 / 10"
  using assms by (auto simp: check_collision_def Let_def split: if_splits)

lemma check_collision_kinds:
  assumes "check_collision lib t s1 s2 u1 u2 = Some c"
  shows "users c = [u1, u2] \<and>
         (collision_type c = ''file_collision'' \<and> confidence c = 9 / 10 \<and>
            files_of s1 \<inter> files_of s2 \<noteq> {} \<or>
          collision_type c = ''feature_collision'' \<and> confidence c = 7 / 10 \<and>
            files_of s1 \<inter> files_of s2 = {} \<and> features_of s1 \<inter> features_of s2 \<noteq> {})"
  using assms by (auto simp: check_collision_def Let_def split: if_splits)

lemma check_collision_none:
  "check_collision lib t s1 s2 u1 u2 = None \<longleftrightarrow>
     files_of s1 \<inter> files_of s2 = {} \<and> features_of s1 \<inter> features_of s2 = {}"
  by (simp add: check_collision_def Let_def)

lemma check_collision_clock:
  "map_option strip_time (check_collision lib t s1 s2 u1 u2) =
   map_option strip_time (check_collision lib t' s1 s2 u1 u2)"
  by (simp add: check_collision_def Let_def strip_time_def)

lemma users_strip_time [simp]: "users (strip_time c) = users c"
  by (simp add: strip_time_def)

subsection \<open>The nested loops\<close>

lemma map_filter_append:
  "List.map_filter f (xs @ ys) = List.map_filter f xs @ List.map_filter f ys"
  by (simp add: List.map_filter_def)

lemma map_filter_map:
  "List.map_filter f (map g xs) = List.map_filter (\<lambda>x. f (g x)) xs"
  by (simp add: List.map_filter_def filter_map comp_def)

lemma collisions_with_stripped:
  "map strip_time (collisions_with lib clk acts u1 rest acc) =
     map strip_time acc @
     List.map_filter
       (\<lambda>u2. map_option strip_time
                (check_collision lib 0 (dict_get acts u1) (dict_get acts u2) u1 u2)) rest"
proof (induction rest arbitrary: acc)
  case Nil
  show ?case by (simp add: List.map_filter_simps)
next
  case (Cons u2 rest)
  let ?t = "clk (Suc (length acc))"
  have eq: "map_option strip_time
              (check_collision lib ?t (dict_get acts u1) (dict_get acts u2) u1 u2) =
            map_option strip_time
              (check_collision lib 0 (dict_get acts u1) (dict_get acts u2) u1 u2)"
    by (rule check_collision_clock)
  show ?case
  proof (cases "check_collision lib ?t (dict_get acts u1) (dict_get acts u2) u1 u2")
    case None
    with eq Cons.IH [of acc] show ?thesis
      by (simp add: List.map_filter_simps)
  next
    case (Some c)
    with eq obtain z
      where z: "check_collision lib 0 (dict_get acts u1) (dict_get acts u2) u1 u2 = Some z"
        and zc: "strip_time z = strip_time c"
      by (cases "check_collision lib 0 (dict_get acts u1) (dict_get acts u2) u1 u2") auto
    from Some z zc Cons.IH [of "acc @ [c]"] show ?thesis
      by (simp add: List.map_filter_simps)
  qed
qed

lemma collisions_among_stripped:
  "map strip_time (collisions_among lib clk acts us acc) =
     map strip_time acc @
     List.map_filter
       (\<lambda>(u1, u2). map_option strip_time
                (check_collision lib 0 (dict_get acts u1) (dict_get acts u2) u1 u2))
       (pairs_of us)"
proof (induction us arbitrary: acc)
  case Nil
  show ?case by (simp add: List.map_filter_simps)
next
  case (Cons u1 us)
  show ?case
    by (simp add: Cons.IH collisions_with_stripped map_filter_append map_filter_map)
qed

lemma pairs_of_members:
  "(a, b) \<in> set (pairs_of xs) \<Longrightarrow> a \<in> set xs \<and> b \<in> set xs"
  by (induction xs) auto

lemma pairs_of_complete:
  "a \<in> set xs \<Longrightarrow> b \<in> set xs \<Longrightarrow> a \<noteq> b \<Longrightarrow>
   (a, b) \<in> set (pairs_of xs) \<or> (b, a) \<in> set (pairs_of xs)"
  by (induction xs) auto

lemma pairs_of_distinct_components:
  "distinct xs \<Longrightarrow> (a, b) \<in> set (pairs_of xs) \<Longrightarrow> a \<noteq> b"
  by (induction xs) (auto dest: pairs_of_members)

lemma pairs_of_unordered_distinct:
  "distinct xs \<Longrightarrow> distinct (map (\<lambda>(a, b). {a, b}) (pairs_of xs))"
proof (induction xs)
  case Nil
  show ?case by simp
next
  case (Cons x xs)
  have "inj_on (\<lambda>b. {x, b}) (set xs)"
    using Cons.prems by (auto simp: inj_on_def doubleton_eq_iff)
  then have first: "distinct (map (\<lambda>b. {x, b}) xs)"
    using Cons.prems by (simp add: distinct_map)
  have apart: "{x, b} \<noteq> {a, c}" if "b \<in> set xs" "(a, c) \<in> set (pairs_of xs)" for a b c
    using that Cons.prems pairs_of_members [of a c xs] by (auto simp: doubleton_eq_iff)
  from first apart Cons show ?case
    by (auto simp: comp_def)
qed


lemma collisions_with_origin:
  "c \<in> set (collisions_with lib clk acts u1 rest acc) \<Longrightarrow>
   c \<in> set acc \<or>
   (\<exists>u2\<in>set rest. \<exists>t.
      check_collision lib t (dict_get acts u1) (dict_get acts u2) u1 u2 = Some c)"
proof (induction rest arbitrary: acc)
  case Nil
  then show ?case by simp
next
  case (Cons u2 rest)
  show ?case
  proof (cases "check_collision lib (clk (Suc (length acc)))
                  (dict_get acts u1) (dict_get acts u2) u1 u2")
    case None
    with Cons.prems Cons.IH [of acc] show ?thesis by auto
  next
    case (Some d)
    with Cons.prems Cons.IH [of "acc @ [d]"] show ?thesis by auto
  qed
qed

lemma collisions_among_origin:
  "c \<in> set (collisions_among lib clk acts us acc) \<Longrightarrow>
   c \<in> set acc \<or>
   (\<exists>(u1, u2)\<in>set (pairs_of us). \<exists>t.
      check_collision lib t (dict_get acts u1) (dict_get acts u2) u1 u2 = Some c)"
proof (induction us arbitrary: acc)
  case Nil
  then show ?case by simp
next
  case (Cons u1 us)
  from Cons.prems Cons.IH [of "collisions_with lib clk acts u1 us acc"]
  consider "c \<in> set (collisions_with lib clk acts u1 us acc)"
    | "\<exists>(a, b)\<in>set (pairs_of us). \<exists>t.
         check_collision lib t (dict_get acts a) (dict_get acts b) a b = Some c"
    by auto
  then show ?case
  proof cases
    case 1
    from collisions_with_origin [OF this] show ?thesis by auto
  next
    case 2
    then show ?thesis by auto
  qed
qed

lemma users_of_map_filter:
  "map (\<lambda>c. set (users c))
     (List.map_filter
        (\<lambda>(u1, u2). map_option strip_time (check_collision lib t (A u1) (A u2) u1 u2)) ps) =
   map (\<lambda>(a, b). {a, b})
     (filter (\<lambda>(u1, u2). check_collision lib t (A u1) (A u2) u1 u2 \<noteq> None) ps)"
proof (induction ps)
  case Nil
  show ?case by (simp add: List.map_filter_simps)
next
  case (Cons p ps)
  obtain u1 u2 where p: "p = (u1, u2)" by (cases p)
  show ?case
  proof (cases "check_collision lib t (A u1) (A u2) u1 u2")
    case None
    with Cons.IH p show ?thesis by (simp add: List.map_filter_simps)
  next
    case (Some c)
    from check_collision_kinds [OF Some] have "users c = [u1, u2]" by blast
    with Some Cons.IH p show ?thesis by (simp add: List.map_filter_simps)
  qed
qed

lemma distinct_map_count:
  "distinct (map f xs) \<Longrightarrow> length (filter (\<lambda>x. f x = v) xs) \<le> 1"
proof (induction xs)
  case Nil
  show ?case by simp
next
  case (Cons x xs)
  show ?case
  proof (cases "f x = v")
    case True
    with Cons.prems have "filter (\<lambda>y. f y = v) xs = []"
      by (auto simp: filter_empty_conv image_iff)
    with True show ?thesis by simp
  next
    case False
    with Cons show ?thesis by simp
  qed
qed

lemma map_filter_member:
  "p \<in> set ps \<Longrightarrow> f p = Some y \<Longrightarrow> y \<in> set (List.map_filter f ps)"
  by (force simp: List.map_filter_def)

lemma strip_time_fields:
  "strip_time c = strip_time d \<Longrightarrow>
   users c = users d \<and> collision_type c = collision_type d \<and> confidence c = confidence d \<and>
   resource c = resource d \<and> suggestion c = suggestion d"
  by (cases c, cases d) (simp add: strip_time_def)

lemma detect_team_collisions_unfold:
  assumes "cutoff_time (clk 0) h = Inr cutoff"
  shows "detect_team_collisions lib clk sessions pid h =
           Inr (collisions_among lib clk (group_by_user (in_window sessions pid cutoff))
                  (map fst (group_by_user (in_window sessions pid cutoff))) [])"
  using assms by (simp add: detect_team_collisions_def err_bind_def in_window_def Let_def)

lemma detect_team_collisions_error:
  "cutoff_time (clk 0) h = Inl e \<Longrightarrow> detect_team_collisions lib clk sessions pid h = Inl e"
  by (simp add: detect_team_collisions_def err_bind_def)

lemma detect_team_collisions_stripped:
  assumes "cutoff_time (clk 0) h = Inr cutoff"
    and "detect_team_collisions lib clk sessions pid h = Inr cs"
    and "R = in_window sessions pid cutoff"
  shows "map strip_time cs =
     List.map_filter
       (\<lambda>(u1, u2). map_option strip_time
                (check_collision lib 0 (sessions_by R u1) (sessions_by R u2) u1 u2))
       (pairs_of (map fst (group_by_user R)))"
  using assms(2,3) unfolding detect_team_collisions_unfold [where clk = clk, OF assms(1)]
  by (auto simp: collisions_among_stripped group_by_user_get)

lemma scenario_c_collisions:
  "detect_team_collisions utc_lib sample_clock scenario_c ''ecommerce_app'' 2 =
     Inr scenario_c_warnings"
  by code_simp

text \<open>
  C5. In one pass of \<^verbatim>\<open>detect_team_collisions\<close> the warnings belong to pairwise different
  unordered pairs of people, so a pair gets at most one. Every warning is what
  \<^verbatim>\<open>_check_collision\<close> returns for two different people with in-window sessions in the
  scope: a file warning with confidence 0.9 when their file sets intersect, a feature
  warning with confidence 0.7 only when the file sets are disjoint and the feature sets
  intersect. Two such people whose file sets intersect do get a file warning, and
  0.7 < 0.9.
\<close>

theorem one_warning_per_pair:
  assumes res: "detect_team_collisions lib clk sessions pid h = Inr cs"
  shows "\<exists>cutoff. cutoff_time (clk 0) h = Inr cutoff \<and>
     (let R = in_window sessions pid cutoff in
        distinct (map (\<lambda>c. set (users c)) cs) \<and>
        (\<forall>u1 u2. length (filter (\<lambda>c. set (users c) = {u1, u2}) cs) \<le> 1) \<and>
        (\<forall>c\<in>set cs. \<exists>u1 u2 t.
           u1 \<noteq> u2 \<and> u1 \<in> user_id_s ` set R \<and> u2 \<in> user_id_s ` set R \<and>
           check_collision lib t (sessions_by R u1) (sessions_by R u2) u1 u2 = Some c \<and>
           users c = [u1, u2] \<and>
           (collision_type c = ''file_collision'' \<and> confidence c = 9 / 10 \<and>
              files_of (sessions_by R u1) \<inter> files_of (sessions_by R u2) \<noteq> {} \<or>
            collision_type c = ''feature_collision'' \<and> confidence c = 7 / 10 \<and>
              files_of (sessions_by R u1) \<inter> files_of (sessions_by R u2) = {} \<and>
              features_of (sessions_by R u1) \<inter> features_of (sessions_by R u2) \<noteq> {})) \<and>
        (\<forall>u1 u2. u1 \<in> user_id_s ` set R \<and> u2 \<in> user_id_s ` set R \<and> u1 \<noteq> u2 \<and>
           files_of (sessions_by R u1) \<inter> files_of (sessions_by R u2) \<noteq> {} \<longrightarrow>
           (\<exists>c\<in>set cs. set (users c) = {u1, u2} \<and> collision_type c = ''file_collision'' \<and>
              confidence c = 9 / 10)) \<and>
        (7 / 10 :: real) < 9 / 10)"
proof -
  obtain cutoff where cutoff: "cutoff_time (clk 0) h = Inr cutoff"
    using res detect_team_collisions_error [of clk h _ lib sessions pid]
    by (cases "cutoff_time (clk 0) h") auto
  define R where "R = in_window sessions pid cutoff"
  define acts where "acts = group_by_user R"
  define us where "us = map fst acts"
  define G where "G = (\<lambda>(u1, u2).
    map_option strip_time (check_collision lib 0 (sessions_by R u1) (sessions_by R u2) u1 u2))"
  have cs: "cs = collisions_among lib clk acts us []"
    using res unfolding detect_team_collisions_unfold [where clk = clk, OF cutoff]
    by (simp add: R_def acts_def us_def)
  have stripped: "map strip_time cs = List.map_filter G (pairs_of us)"
    unfolding G_def us_def acts_def
    by (rule detect_team_collisions_stripped [OF cutoff res R_def])
  have dus: "distinct us"
    unfolding us_def acts_def by (rule group_by_user_distinct)
  have keys: "set us = user_id_s ` set R"
    unfolding us_def acts_def by (rule group_by_user_keys)
  have "map (\<lambda>c. set (users c)) cs = map (\<lambda>c. set (users c)) (map strip_time cs)"
    by (simp add: comp_def)
  also have "\<dots> = map (\<lambda>(a, b). {a, b})
      (filter (\<lambda>(u1, u2).
         check_collision lib 0 (sessions_by R u1) (sessions_by R u2) u1 u2 \<noteq> None)
         (pairs_of us))"
    unfolding stripped G_def by (rule users_of_map_filter)
  finally have "distinct (map (\<lambda>c. set (users c)) cs)"
    using pairs_of_unordered_distinct [OF dus] by (simp add: distinct_map_filter)
  note one = this
  have count: "\<forall>u1 u2. length (filter (\<lambda>c. set (users c) = {u1, u2}) cs) \<le> 1"
    using distinct_map_count [of "\<lambda>c. set (users c)" cs, OF one] by simp
  have origin: "\<forall>c\<in>set cs. \<exists>u1 u2 t.
           u1 \<noteq> u2 \<and> u1 \<in> user_id_s ` set R \<and> u2 \<in> user_id_s ` set R \<and>
           check_collision lib t (sessions_by R u1) (sessions_by R u2) u1 u2 = Some c \<and>
           users c = [u1, u2] \<and>
           (collision_type c = ''file_collision'' \<and> confidence c = 9 / 10 \<and>
              files_of (sessions_by R u1) \<inter> files_of (sessions_by R u2) \<noteq> {} \<or>
            collision_type c = ''feature_collision'' \<and> confidence c = 7 / 10 \<and>
              files_of (sessions_by R u1) \<inter> files_of (sessions_by R u2) = {} \<and>
              features_of (sessions_by R u1) \<inter> features_of (sessions_by R u2) \<noteq> {})"
  proof
    fix c
    assume "c \<in> set cs"
    with collisions_among_origin [of c lib clk acts us "[]"] cs
    obtain u1 u2 t where p: "(u1, u2) \<in> set (pairs_of us)"
      and c: "check_collision lib t (dict_get acts u1) (dict_get acts u2) u1 u2 = Some c"
      by auto
    have c': "check_collision lib t (sessions_by R u1) (sessions_by R u2) u1 u2 = Some c"
      using c by (simp add: acts_def group_by_user_get)
    have ne: "u1 \<noteq> u2"
      by (rule pairs_of_distinct_components [OF dus p])
    have m1: "u1 \<in> user_id_s ` set R" and m2: "u2 \<in> user_id_s ` set R"
      using pairs_of_members [OF p] keys by auto
    note k = check_collision_kinds [OF c']
    show "\<exists>u1 u2 t.
           u1 \<noteq> u2 \<and> u1 \<in> user_id_s ` set R \<and> u2 \<in> user_id_s ` set R \<and>
           check_collision lib t (sessions_by R u1) (sessions_by R u2) u1 u2 = Some c \<and>
           users c = [u1, u2] \<and>
           (collision_type c = ''file_collision'' \<and> confidence c = 9 / 10 \<and>
              files_of (sessions_by R u1) \<inter> files_of (sessions_by R u2) \<noteq> {} \<or>
            collision_type c = ''feature_collision'' \<and> confidence c = 7 / 10 \<and>
              files_of (sessions_by R u1) \<inter> files_of (sessions_by R u2) = {} \<and>
              features_of (sessions_by R u1) \<inter> features_of (sessions_by R u2) \<noteq> {})"
      apply (rule exI [of _ u1])
      apply (rule exI [of _ u2])
      apply (rule exI [of _ t])
      apply (rule conjI [OF ne])
      apply (rule conjI [OF m1])
      apply (rule conjI [OF m2])
      apply (rule conjI [OF c'])
      apply (rule k)
      done
  qed
  have complete: "\<forall>u1 u2. u1 \<in> user_id_s ` set R \<and> u2 \<in> user_id_s ` set R \<and> u1 \<noteq> u2 \<and>
           files_of (sessions_by R u1) \<inter> files_of (sessions_by R u2) \<noteq> {} \<longrightarrow>
           (\<exists>c\<in>set cs. set (users c) = {u1, u2} \<and> collision_type c = ''file_collision'' \<and>
              confidence c = 9 / 10)"
  proof (intro allI impI)
    fix u1 u2
    assume a: "u1 \<in> user_id_s ` set R \<and> u2 \<in> user_id_s ` set R \<and> u1 \<noteq> u2 \<and>
           files_of (sessions_by R u1) \<inter> files_of (sessions_by R u2) \<noteq> {}"
    then have "u1 \<in> set us" "u2 \<in> set us" "u1 \<noteq> u2" using keys by auto
    from pairs_of_complete [OF this]
    obtain a b where p: "(a, b) \<in> set (pairs_of us)" and ab: "{a, b} = {u1, u2}"
      and or: "a = u1 \<and> b = u2 \<or> a = u2 \<and> b = u1"
      by auto
    from or a have "files_of (sessions_by R a) \<inter> files_of (sessions_by R b) \<noteq> {}"
      by (auto simp: Int_commute)
    from check_collision_file [OF this, of lib 0 a b]
    obtain d where d: "check_collision lib 0 (sessions_by R a) (sessions_by R b) a b = Some d"
      and kind: "collision_type d = ''file_collision''" "confidence d = 9 / 10"
        "users d = [a, b]"
      by blast
    from d have "G (a, b) = Some (strip_time d)"
      by (simp add: G_def)
    from map_filter_member [where f = G, OF p this] stripped
    have "strip_time d \<in> set (map strip_time cs)" by simp
    then obtain c where c: "c \<in> set cs" and "strip_time c = strip_time d"
      by auto
    from strip_time_fields [OF this(2)]
    have "users c = users d" "collision_type c = collision_type d" "confidence c = confidence d"
      by simp_all
    with kind ab have "set (users c) = {u1, u2} \<and> collision_type c = ''file_collision'' \<and>
              confidence c = 9 / 10"
      by simp
    with c show "\<exists>c\<in>set cs. set (users c) = {u1, u2} \<and>
        collision_type c = ''file_collision'' \<and> confidence c = 9 / 10"
      by (rule bexI [rotated])
  qed
  have conf: "(7 / 10 :: real) < 9 / 10" by simp
  note all = conjI [OF one conjI [OF count conjI [OF origin conjI [OF complete conf]]]]
  have window: "let R = in_window sessions pid cutoff in
        distinct (map (\<lambda>c. set (users c)) cs) \<and>
        (\<forall>u1 u2. length (filter (\<lambda>c. set (users c) = {u1, u2}) cs) \<le> 1) \<and>
        (\<forall>c\<in>set cs. \<exists>u1 u2 t.
           u1 \<noteq> u2 \<and> u1 \<in> user_id_s ` set R \<and> u2 \<in> user_id_s ` set R \<and>
           check_collision lib t (sessions_by R u1) (sessions_by R u2) u1 u2 = Some c \<and>
           users c = [u1, u2] \<and>
           (collision_type c = ''file_collision'' \<and> confidence c = 9 / 10 \<and>
              files_of (sessions_by R u1) \<inter> files_of (sessions_by R u2) \<noteq> {} \<or>
            collision_type c = ''feature_collision'' \<and> confidence c = 7 / 10 \<and>
              files_of (sessions_by R u1) \<inter> files_of (sessions_by R u2) = {} \<and>
              features_of (sessions_by R u1) \<inter> features_of (sessions_by R u2) \<noteq> {})) \<and>
        (\<forall>u1 u2. u1 \<in> user_id_s ` set R \<and> u2 \<in> user_id_s ` set R \<and> u1 \<noteq> u2 \<and>
           files_of (sessions_by R u1) \<inter> files_of (sessions_by R u2) \<noteq> {} \<longrightarrow>
           (\<exists>c\<in>set cs. set (users c) = {u1, u2} \<and> collision_type c = ''file_collision'' \<and>
              confidence c = 9 / 10)) \<and>
        (7 / 10 :: real) < 9 / 10"
    unfolding Let_def R_def [symmetric] by (rule all)
  show ?thesis
    by (rule exI [where x = cutoff]) (rule conjI [OF cutoff window])
qed

theorem one_warning_per_pair_witness:
  "detect_team_collisions utc_lib sample_clock scenario_c ''ecommerce_app'' 2 =
     Inr scenario_c_warnings \<and>
   distinct (map (\<lambda>c. set (users c)) scenario_c_warnings) \<and>
   length (filter (\<lambda>c. set (users c) = {''developer_1'', ''developer_2''})
             scenario_c_warnings) \<le> 1 \<and>
   map collision_type scenario_c_warnings =
     [''file_collision'', ''feature_collision'', ''feature_collision'']"
proof -
  from one_warning_per_pair [OF scenario_c_collisions]
  have "distinct (map (\<lambda>c. set (users c)) scenario_c_warnings)"
    and "length (filter (\<lambda>c. set (users c) = {''developer_1'', ''developer_2''})
             scenario_c_warnings) \<le> 1"
    unfolding Let_def by blast+
  moreover have "map collision_type scenario_c_warnings =
     [''file_collision'', ''feature_collision'', ''feature_collision'']"
    by (simp add: scenario_c_warnings_def)
  ultimately show ?thesis
    using scenario_c_collisions by blast
qed

section \<open>Dependence on the clock, the set order and the input order\<close>

lemma set_order_descending: "set_order_ok descending_lib"
  by (simp add: set_order_ok_def descending_lib_def utc_lib_def)

lemma scenario_d_resources:
  "map_option resource
     (check_collision utc_lib t0 [scenario_d ! 0] [scenario_d ! 1]
        ''developer_1'' ''developer_2'') = Some ''app.py'' \<and>
   map_option resource
     (check_collision descending_lib t0 [scenario_d ! 0] [scenario_d ! 1]
        ''developer_1'' ''developer_2'') = Some ''auth.js''"
  by code_simp

lemma tied_records_one_pair:
  "\<forall>x\<in>set tied_records. user_id x = ''developer_1'' \<and> project_id x = ''ecommerce_app''"
  by (simp add: tied_records_def sample_interaction_def)

lemma tied_records_sessions:
  "map (map id_str) (map interactions (group_into_sessions utc_lib tied_records 30)) =
     [[''b'', ''a'']] \<and>
   map (map id_str) (map interactions (group_into_sessions utc_lib (rev tied_records) 30)) =
     [[''a'', ''b'']]"
proof -
  have r: "\<forall>x\<in>set (rev tied_records).
             user_id x = ''developer_1'' \<and> project_id x = ''ecommerce_app''"
    using tied_records_one_pair by simp
  have small: "(30 :: int) * 60 < 2 ^ 34" by simp
  show ?thesis
    unfolding group_into_sessions_exact [OF tied_records_one_pair small]
      group_into_sessions_exact [OF r small]
    by (simp add: tied_records_def sample_interaction_def us_per_minute_def exact_gap_def)
qed

lemma scenario_a_idle_later:
  "calculate_developer_status utc_lib (t0 + 300 * us_per_minute)
     (group_into_sessions utc_lib scenario_a 30) ''developer_1'' ''ecommerce_app'' 2 =
     Inr (idle_activity ''developer_1'' ''ecommerce_app'')"
proof -
  let ?now = "t0 + 300 * us_per_minute"
  let ?S = "group_into_sessions utc_lib scenario_a 30"
  have c: "cutoff_time ?now 2 = Inr (?now - 2 * us_per_hour)"
    by (rule cutoff_time_ok)
       (simp_all add: t0_def us_per_minute_def us_per_hour_def datetime_min_def
          datetime_max_def)
  have "\<forall>e\<in>set (map end_time ?S). \<not> e > ?now - 2 * us_per_hour"
    unfolding scenario_a_end_times by (simp add: us_per_minute_def us_per_hour_def)
  then have "recent_sessions_of ?S ''developer_1'' ''ecommerce_app'' (?now - 2 * us_per_hour) = []"
    unfolding scenario_a_recent filter_empty_conv by simp
  from status_idle [OF c this] show ?thesis .
qed

text \<open>
  C7 as stated fails. With the records and the configuration fixed, the status depends on
  the reading of the clock (\<open>flow\<close> one hour after the first record, \<open>idle\<close> five hours
  after it), the resource of a warning depends on the order in which the set of shared
  files is iterated, and two records with the same timestamp stay in their input order
  instead of the order of their ids.
\<close>

theorem outputs_depend_on_environment:
  "calculate_developer_status utc_lib (t0 + 60 * us_per_minute)
     (group_into_sessions utc_lib scenario_a 30) ''developer_1'' ''ecommerce_app'' 2 =
   Inr \<lparr>user_id_a = ''developer_1'', project_id_a = ''ecommerce_app'',
        current_task = ''Debugging: problem four...'', status = ''flow'',
        last_activity = t0 + 50 * us_per_minute,
        duration_minutes_a = 11, files_working_on = [],
        recent_problems = [''error one'', ''bug two'', ''crash three''],
        iteration_count = 4, success_rate = 0\<rparr> \<and>
   calculate_developer_status utc_lib (t0 + 300 * us_per_minute)
     (group_into_sessions utc_lib scenario_a 30) ''developer_1'' ''ecommerce_app'' 2 =
     Inr (idle_activity ''developer_1'' ''ecommerce_app'') \<and>
   map_option resource
     (check_collision utc_lib t0 [scenario_d ! 0] [scenario_d ! 1]
        ''developer_1'' ''developer_2'') = Some ''app.py'' \<and>
   map_option resource
     (check_collision descending_lib t0 [scenario_d ! 0] [scenario_d ! 1]
        ''developer_1'' ''developer_2'') = Some ''auth.js'' \<and>
   map (map id_str) (map interactions (group_into_sessions utc_lib tied_records 30)) =
     [[''b'', ''a'']] \<and>
   map (map id_str) (map interactions (group_into_sessions utc_lib (rev tied_records) 30)) =
     [[''a'', ''b'']]"
  using scenario_a_status scenario_a_idle_later scenario_d_resources tied_records_sessions
  by blast

lemma sort_key_distinct_keys:
  assumes "mset xs = mset ys" and "distinct (map f xs)"
  shows "sort_key f xs = sort_key f ys"
proof -
  have set_eq: "set xs = set ys"
    using assms(1) by (rule mset_eq_setD)
  have inj: "inj_on f (set xs)" and dxs: "distinct xs"
    using assms(2) by (auto simp: distinct_map)
  have "mset (map f ys) = mset (map f xs)"
    using assms(1) by simp
  then have dys: "distinct (map f ys)"
    using assms(2) by (metis mset_eq_imp_distinct_iff)
  have "map f (sort_key f xs) = map f (sort_key f ys)"
  proof (rule sorted_distinct_set_unique)
    show "sorted (map f (sort_key f xs))" "sorted (map f (sort_key f ys))"
      by simp_all
    show "distinct (map f (sort_key f xs))"
      using assms(2) by (metis distinct_map distinct_sort set_sort)
    show "distinct (map f (sort_key f ys))"
      using dys by (metis distinct_map distinct_sort set_sort)
    show "set (map f (sort_key f xs)) = set (map f (sort_key f ys))"
      using set_eq by simp
  qed
  moreover have "inj_on f (set (sort_key f xs) \<union> set (sort_key f ys))"
    using inj set_eq by simp
  ultimately show ?thesis
    by (rule inj_on_map_eq_map [THEN iffD1, rotated])
qed

text \<open>
  C7, amended. The outputs depend on the clock only through the lookback cutoff and the
  \<open>detected_at\<close> stamps: two clock readings that put the same sessions into the window
  give the same ActivityStatus and the same warnings up to \<open>detected_at\<close>. Segmentation
  of the records of one (author, scope) pair does not depend on the order of the input
  when their timestamps are pairwise different; records with equal timestamps keep their
  input order.
\<close>

theorem outputs_determined_by_window:
  "(cutoff_time now1 h = Inr c1 \<and> cutoff_time now2 h = Inr c2 \<and>
    recent_sessions_of sessions uid pid c1 = recent_sessions_of sessions uid pid c2 \<longrightarrow>
      calculate_developer_status lib now1 sessions uid pid h =
      calculate_developer_status lib now2 sessions uid pid h) \<and>
   (cutoff_time (clk1 0) h = Inr c1 \<and> cutoff_time (clk2 0) h = Inr c2 \<and>
    in_window sessions pid c1 = in_window sessions pid c2 \<longrightarrow>
      map_sum id (map strip_time) (detect_team_collisions lib clk1 sessions pid h) =
      map_sum id (map strip_time) (detect_team_collisions lib clk2 sessions pid h)) \<and>
   ((\<forall>x\<in>set xs. user_id x = uid \<and> project_id x = pid) \<and> mset xs = mset ys \<and>
    distinct (map interaction_timestamp xs) \<longrightarrow>
      group_into_sessions lib xs gap = group_into_sessions lib ys gap)"
proof (intro conjI impI)
  assume a: "cutoff_time now1 h = Inr c1 \<and> cutoff_time now2 h = Inr c2 \<and>
    recent_sessions_of sessions uid pid c1 = recent_sessions_of sessions uid pid c2"
  then show "calculate_developer_status lib now1 sessions uid pid h =
      calculate_developer_status lib now2 sessions uid pid h"
    by (simp add: calculate_developer_status_def err_bind_def)
next
  assume a: "cutoff_time (clk1 0) h = Inr c1 \<and> cutoff_time (clk2 0) h = Inr c2 \<and>
    in_window sessions pid c1 = in_window sessions pid c2"
  then have c1: "cutoff_time (clk1 0) h = Inr c1" and c2: "cutoff_time (clk2 0) h = Inr c2"
    and w: "in_window sessions pid c1 = in_window sessions pid c2"
    by simp_all
  show "map_sum id (map strip_time) (detect_team_collisions lib clk1 sessions pid h) =
      map_sum id (map strip_time) (detect_team_collisions lib clk2 sessions pid h)"
    unfolding detect_team_collisions_unfold [where clk = clk1, OF c1]
      detect_team_collisions_unfold [where clk = clk2, OF c2]
    by (simp add: collisions_among_stripped w)
next
  assume a: "(\<forall>x\<in>set xs. user_id x = uid \<and> project_id x = pid) \<and> mset xs = mset ys \<and>
    distinct (map interaction_timestamp xs)"
  then have same: "\<forall>x\<in>set xs. user_id x = uid \<and> project_id x = pid"
    and m: "mset xs = mset ys" and d: "distinct (map interaction_timestamp xs)"
    by simp_all
  have "set xs = set ys" using m by (rule mset_eq_setD)
  with same have same': "\<forall>x\<in>set ys. user_id x = uid \<and> project_id x = pid"
    by simp
  show "group_into_sessions lib xs gap = group_into_sessions lib ys gap"
    unfolding group_into_sessions_single [OF same] group_into_sessions_single [OF same']
      sort_key_distinct_keys [OF m d] ..
qed

theorem outputs_determined_by_window_witness:
  "cutoff_time (sample_clock 0) 8 = Inr (sample_clock 0 - 8 * us_per_hour) \<and>
   cutoff_time (late_clock 0) 8 = Inr (late_clock 0 - 8 * us_per_hour) \<and>
   recent_sessions_of scenario_c ''developer_1'' ''ecommerce_app''
       (sample_clock 0 - 8 * us_per_hour) =
     recent_sessions_of scenario_c ''developer_1'' ''ecommerce_app''
       (late_clock 0 - 8 * us_per_hour) \<and>
   in_window scenario_c ''ecommerce_app'' (sample_clock 0 - 8 * us_per_hour) =
     in_window scenario_c ''ecommerce_app'' (late_clock 0 - 8 * us_per_hour) \<and>
   calculate_developer_status utc_lib (sample_clock 0) scenario_c
       ''developer_1'' ''ecommerce_app'' 8 =
     calculate_developer_status utc_lib (late_clock 0) scenario_c
       ''developer_1'' ''ecommerce_app'' 8 \<and>
   map_sum id (map strip_time)
       (detect_team_collisions utc_lib sample_clock scenario_c ''ecommerce_app'' 8) =
     map_sum id (map strip_time)
       (detect_team_collisions utc_lib late_clock scenario_c ''ecommerce_app'' 8) \<and>
   list_all (\<lambda>x. user_id x = ''developer_1'' \<and> project_id x = ''ecommerce_app'') scenario_a \<and>
   mset scenario_a = mset (rev scenario_a) \<and>
   distinct (map interaction_timestamp scenario_a) \<and>
   group_into_sessions utc_lib scenario_a 30 = group_into_sessions utc_lib (rev scenario_a) 30"
proof -
  let ?c1 = "sample_clock 0 - 8 * us_per_hour"
  let ?c2 = "late_clock 0 - 8 * us_per_hour"
  have c1: "cutoff_time (sample_clock 0) 8 = Inr ?c1"
    by (rule cutoff_time_ok)
       (simp_all add: sample_clock_def t0_def us_per_minute_def us_per_hour_def
          datetime_min_def datetime_max_def)
  have c2: "cutoff_time (late_clock 0) 8 = Inr ?c2"
    by (rule cutoff_time_ok)
       (simp_all add: late_clock_def sample_clock_def t0_def us_per_minute_def us_per_hour_def
          datetime_min_def datetime_max_def)
  have r: "recent_sessions_of scenario_c ''developer_1'' ''ecommerce_app'' ?c1 =
           recent_sessions_of scenario_c ''developer_1'' ''ecommerce_app'' ?c2"
    by (simp add: recent_sessions_of_def scenario_c_def sample_session_def late_clock_def
        sample_clock_def us_per_minute_def us_per_hour_def)
  have w: "in_window scenario_c ''ecommerce_app'' ?c1 = in_window scenario_c ''ecommerce_app'' ?c2"
    by (simp add: in_window_def scenario_c_def sample_session_def late_clock_def
        sample_clock_def us_per_minute_def us_per_hour_def)
  have m: "mset scenario_a = mset (rev scenario_a)"
    by simp
  have d: "distinct (map interaction_timestamp scenario_a)"
    by (simp add: scenario_a_def sample_interaction_def us_per_minute_def)
  note inst = outputs_determined_by_window
    [of "sample_clock 0" 8 ?c1 "late_clock 0" ?c2 scenario_c "''developer_1''"
        "''ecommerce_app''" utc_lib sample_clock late_clock scenario_a "rev scenario_a" 30]
  from inst c1 c2 r
  have 1: "calculate_developer_status utc_lib (sample_clock 0) scenario_c
             ''developer_1'' ''ecommerce_app'' 8 =
           calculate_developer_status utc_lib (late_clock 0) scenario_c
             ''developer_1'' ''ecommerce_app'' 8"
    by blast
  from inst c1 c2 w
  have 2: "map_sum id (map strip_time)
             (detect_team_collisions utc_lib sample_clock scenario_c ''ecommerce_app'' 8) =
           map_sum id (map strip_time)
             (detect_team_collisions utc_lib late_clock scenario_c ''ecommerce_app'' 8)"
    by blast
  from inst scenario_a_one_pair m d
  have 3: "group_into_sessions utc_lib scenario_a 30 =
           group_into_sessions utc_lib (rev scenario_a) 30"
    by blast
  have p: "list_all (\<lambda>x. user_id x = ''developer_1'' \<and> project_id x = ''ecommerce_app'')
             scenario_a"
    using scenario_a_one_pair by (simp add: list_all_iff)
  from c1 c2 r w 1 2 3 p m d show ?thesis
    by (intro conjI)
qed

end
